theory Spec2Isabelle
  imports Main "HOL-Library.AList"
begin

section \<open>Host values\<close>

text \<open>
  The editor's \<^verbatim>\<open>Uri\<close>, \<^verbatim>\<open>TextDocument\<close> and \<^verbatim>\<open>TextEditor\<close>. The tracker reads
  \<^verbatim>\<open>uri.scheme\<close>, \<^verbatim>\<open>uri.fsPath\<close>, \<^verbatim>\<open>document.uri\<close>, \<^verbatim>\<open>document.isDirty\<close> and
  \<^verbatim>\<open>editor.document\<close>, and compares documents and editors by reference. A reference is
  an object number; a document's \<^verbatim>\<open>uri\<close> is read-only, so the number and the uri together
  identify the live buffer, and \<open>isDirty\<close> is the buffer's flag at the time of the event.
\<close>

record Uri =
  scheme :: string
  fsPath :: string

record TextDocument =
  doc_id :: nat
  uri :: Uri
  isDirty :: bool

record TextEditor =
  editor_id :: nat
  editor_document :: TextDocument

text \<open>\<^verbatim>\<open>a === b\<close> on two documents, and on two editors.\<close>

definition same_document :: "TextDocument \<Rightarrow> TextDocument \<Rightarrow> bool" where
  "same_document a b \<longleftrightarrow> doc_id a = doc_id b \<and> uri a = uri b"

definition same_editor :: "TextEditor \<Rightarrow> TextEditor \<Rightarrow> bool" where
  "same_editor a b \<longleftrightarrow> editor_id a = editor_id b"

section \<open>State key\<close>

text \<open>
  Strings are lists of characters with code points below 256 (Basic Latin and Latin-1
  Supplement). On these \<^verbatim>\<open>String.prototype.toLowerCase\<close> maps the capitals U+0041 to
  U+005A and U+00C0 to U+00DE, the multiplication sign U+00D7 excepted, to the character
  32 places further, and leaves every other character as it is.
\<close>

definition toLowerCase_char :: "char \<Rightarrow> char" where
  "toLowerCase_char c =
     (let n = (of_char c :: nat)
      in if (65 \<le> n \<and> n \<le> 90) \<or> (192 \<le> n \<and> n \<le> 222 \<and> n \<noteq> 215)
         then char_of (n + 32) else c)"

definition toLowerCase :: "string \<Rightarrow> string" where
  "toLowerCase s = map toLowerCase_char s"

text \<open>
  Modelled from the spec: \<^verbatim>\<open>Strings.normalizePath\<close> (module \<^verbatim>\<open>system\<close>) is not among the
  sources. The spec calls the key "path-separator-normalized": every backslash becomes a
  forward slash, nothing else changes.
\<close>

definition normalizePath :: "string \<Rightarrow> string" where
  "normalizePath fileName = map (\<lambda>c. if c = CHR 0x5C then CHR ''/'' else c) fileName"

datatype FileNameOrUri = AsFileName string | AsUri Uri

text \<open>
  \<^verbatim>\<open>Strings.normalizePath(typeof fileNameOrUri === 'string' ? fileNameOrUri
       : fileNameOrUri.fsPath).toLowerCase()\<close>
\<close>

fun path_of :: "FileNameOrUri \<Rightarrow> string" where
  "path_of (AsFileName s) = s"
| "path_of (AsUri u) = fsPath u"

definition toStateKey :: "FileNameOrUri \<Rightarrow> string" where
  "toStateKey fileNameOrUri = toLowerCase (normalizePath (path_of fileNameOrUri))"

subsection \<open>What the claim calls the same file in another style\<close>








section \<open>Tracked documents\<close>

text \<open>
  Modelled from the spec: class \<^verbatim>\<open>TrackedDocument\<close> (module \<^verbatim>\<open>trackedDocument\<close>) is not
  among the sources. The spec gives its fields: the underlying buffer, the \<open>dirty\<close> flag,
  the \<open>isDirtyIdle\<close> flag, an active flag, the lazily computed cached bundle with the
  reason tag of its last reset (\<^verbatim>\<open>config\<close>, \<^verbatim>\<open>document\<close> or save-forced), and the one-shot
  flag that forces the next dirty-change notification. \<open>key\<close> is the canonical state key
  the tracker passes to the constructor and reads back as \<^verbatim>\<open>doc.key\<close>. The \<open>document\<close>
  field stands for the reference to the buffer: only its \<open>doc_id\<close> and \<open>uri\<close> are read.
\<close>

datatype reset_reason = Config | Document | SaveForced

record 'T TrackedDocument =
  document :: TextDocument
  key :: string
  dirty :: bool
  isDirtyIdle :: bool
  active :: bool
  forceDirtyStateChangeOnNextDocumentChange :: bool
  state :: "'T option"
  resetReason :: "reset_reason option"
  initialized :: bool
  disposed :: bool

text \<open>
  Modelled from the spec: \<^verbatim>\<open>new TrackedDocument(document, key, dirty, delegates)\<close>: a holder
  with the given buffer, key and dirty flag, nothing cached and no flag raised.
\<close>

definition new_TrackedDocument :: "TextDocument \<Rightarrow> string \<Rightarrow> bool \<Rightarrow> 'T TrackedDocument" where
  "new_TrackedDocument d k dty =
     \<lparr> document = d, key = k, dirty = dty, isDirtyIdle = False, active = False,
       forceDirtyStateChangeOnNextDocumentChange = False, state = None, resetReason = None,
       initialized = False, disposed = False \<rparr>"

text \<open>
  Modelled from the spec: \<^verbatim>\<open>reset(reason)\<close> invalidates the cached bundle and tags it with
  the reason; \<open>isDirtyIdle\<close> "is cleared whenever a reset occurs for reason document".
\<close>

definition reset :: "reset_reason \<Rightarrow> 'T TrackedDocument \<Rightarrow> 'T TrackedDocument" where
  "reset reason td =
     td \<lparr> state := None, resetReason := Some reason,
          isDirtyIdle := (if reason = Document then False else isDirtyIdle td) \<rparr>"

text \<open>
  Modelled from the spec: \<^verbatim>\<open>update({ forceBlameChange })\<close>: on save the tracker must "force
  a cache reset with a force blame recompute flag".
\<close>

definition update :: "bool \<Rightarrow> 'T TrackedDocument \<Rightarrow> 'T TrackedDocument" where
  "update forceBlameChange td =
     (if forceBlameChange then td \<lparr> state := None, resetReason := Some SaveForced \<rparr> else td)"

text \<open>Modelled from the spec: \<^verbatim>\<open>activate()\<close> marks the document active.\<close>

definition activate :: "'T TrackedDocument \<Rightarrow> 'T TrackedDocument" where
  "activate td = td \<lparr> active := True \<rparr>"

text \<open>Modelled from the spec: \<^verbatim>\<open>dispose()\<close> of a tracked document.\<close>

definition TrackedDocument_dispose :: "'T TrackedDocument \<Rightarrow> 'T TrackedDocument" where
  "TrackedDocument_dispose td = td \<lparr> disposed := True \<rparr>"

text \<open>Modelled from the spec: the one-shot flag is cleared.\<close>

definition resetForceDirtyStateChangeOnNextDocumentChange ::
    "'T TrackedDocument \<Rightarrow> 'T TrackedDocument" where
  "resetForceDirtyStateChangeOnNextDocumentChange td =
     td \<lparr> forceDirtyStateChangeOnNextDocumentChange := False \<rparr>"

datatype error = OpenFailed | InitializationFailed

text \<open>
  Modelled from the spec: \<^verbatim>\<open>ensureInitialized()\<close> "may perform asynchronous work to compute
  initial blame state", and its failure propagates. \<open>loads\<close> says for which buffers that
  work succeeds.
\<close>

definition ensureInitialized ::
    "(TextDocument \<Rightarrow> bool) \<Rightarrow> 'T TrackedDocument \<Rightarrow> error + 'T TrackedDocument" where
  "ensureInitialized loads td =
     (if initialized td then Inr td
      else if loads (document td) then Inr (td \<lparr> initialized := True \<rparr>)
      else Inl InitializationFailed)"

section \<open>Deferred calls\<close>

text \<open>
  Modelled from the spec: \<^verbatim>\<open>Functions.debounce\<close> and \<^verbatim>\<open>IDeferrable\<close> (module \<^verbatim>\<open>system\<close>) are
  not among the sources. The spec describes a timer-handle wrapper with
  \<^verbatim>\<open>schedule(payload)\<close>, \<^verbatim>\<open>cancel()\<close> and \<^verbatim>\<open>isPending()\<close> that stores at most one pending
  payload (latest wins); a call restarts the countdown, the callback runs once the delay
  has elapsed with no further call, and \<^verbatim>\<open>cancel()\<close> discards the pending invocation. Time
  is the host's clock in milliseconds.
\<close>

record 'p Deferrable =
  wait :: int
  pendingCall :: "(int \<times> 'p) option"

definition debounce :: "int \<Rightarrow> 'p Deferrable" where
  "debounce w = \<lparr> wait = w, pendingCall = None \<rparr>"

definition invoke :: "int \<Rightarrow> 'p \<Rightarrow> 'p Deferrable \<Rightarrow> 'p Deferrable" where
  "invoke now p d = d \<lparr> pendingCall := Some (now + wait d, p) \<rparr>"

definition cancel :: "'p Deferrable \<Rightarrow> 'p Deferrable" where
  "cancel d = d \<lparr> pendingCall := None \<rparr>"

definition pending :: "'p Deferrable \<Rightarrow> bool" where
  "pending d \<longleftrightarrow> pendingCall d \<noteq> None"

text \<open>The invocation that is due at time \<open>now\<close>, if any.\<close>

definition due :: "int \<Rightarrow> 'p Deferrable \<Rightarrow> 'p option" where
  "due now d =
     (case pendingCall d of
        None \<Rightarrow> None
      | Some (t, p) \<Rightarrow> if t \<le> now then Some p else None)"

section \<open>The document tracker\<close>

record DocumentDirtyStateChangeEvent =
  ds_editor :: TextEditor
  ds_document :: nat
  ds_dirty :: bool

record DocumentDirtyIdleTriggerEvent =
  di_editor :: "TextEditor option"
  di_document :: nat

record TextDocumentChangeEvent =
  e_document :: TextDocument

datatype fired_event =
    DidChangeDirtyState DocumentDirtyStateChangeEvent
  | DidTriggerDirtyIdle DocumentDirtyIdleTriggerEvent

datatype CommandContext = ActiveIsRevision | ActiveFileIsTracked | ActiveIsBlameable | ActiveHasRemote

text \<open>
  The three deferred callbacks are \<^verbatim>\<open>async\<close> functions that end with
  \<^verbatim>\<open>await e.document.ensureInitialized(); ... fire(e)\<close>. A callback suspended at that
  \<^verbatim>\<open>await\<close> is a continuation: what is left to do once the initialization has settled.
\<close>

datatype continuation =
    DirtyStateAwaited DocumentDirtyStateChangeEvent
  | DirtyIdleAwaited DocumentDirtyIdleTriggerEvent

text \<open>
  The keys of \<^verbatim>\<open>_documentMap: Map<TextDocument | string, TrackedDocument<T>>\<close>: a live
  buffer (by reference) or a string.
\<close>

datatype mapkey = ByDocument nat Uri | ByKey string

definition handle :: "TextDocument \<Rightarrow> mapkey" where
  "handle d = ByDocument (doc_id d) (uri d)"

text \<open>
  The tracker's fields. Tracked documents are objects shared between map entries, so they
  live in a store (\<open>heap\<close>, addressed by position) and the map holds addresses; the map is
  an association list in insertion order, as a \<^verbatim>\<open>Map\<close> iterates. \<open>subscribed\<close> is the
  \<^verbatim>\<open>_disposable\<close> of the five event subscriptions, \<open>immediates\<close> the callbacks handed to
  \<^verbatim>\<open>setImmediate\<close> and not yet run, \<open>fired\<close> what the emitters have fired, \<open>commandContext\<close>
  the calls of \<^verbatim>\<open>setCommandContext\<close>.

  Two more components hold what the tracker's fields no longer refer to and the host
  still runs. \<open>detachedIdleDebounces\<close>: the assignment
  \<^verbatim>\<open>this._dirtyIdleTriggeredDebounced = undefined\<close> drops the reference to the debounce
  object without \<^verbatim>\<open>cancel()\<close>; its timer, if armed, stays with the host and its callback
  still runs when the timer elapses. \<open>awaiting\<close>: the callbacks suspended at their
  \<^verbatim>\<open>await\<close>.
\<close>

record 'T DocumentTracker =
  dirtyIdleTriggerDelay :: int
  subscribed :: bool
  documentMap :: "(mapkey \<times> nat) list"
  heap :: "'T TrackedDocument list"
  dirtyIdleTriggeredDebounced :: "DocumentDirtyIdleTriggerEvent Deferrable option"
  dirtyStateChangedDebounced :: "DocumentDirtyStateChangeEvent Deferrable option"
  immediates :: "DocumentDirtyStateChangeEvent list"
  fired :: "fired_event list"
  commandContext :: "(CommandContext \<times> bool) list"
  detachedIdleDebounces :: "DocumentDirtyIdleTriggerEvent Deferrable list"
  awaiting :: "continuation list"

definition lookup :: "'T DocumentTracker \<Rightarrow> mapkey \<Rightarrow> nat option" where
  "lookup tr k = map_of (documentMap tr) k"

text \<open>A method call on the tracked document at address \<open>a\<close>.\<close>

definition on_doc ::
    "nat \<Rightarrow> ('T TrackedDocument \<Rightarrow> 'T TrackedDocument) \<Rightarrow> 'T DocumentTracker \<Rightarrow> 'T DocumentTracker" where
  "on_doc a f tr = tr \<lparr> heap := (heap tr)[a := f (heap tr ! a)] \<rparr>"

text \<open>\<^verbatim>\<open>for (const d of this._documentMap.values()) d.f()\<close>\<close>

definition for_each_value ::
    "('T TrackedDocument \<Rightarrow> 'T TrackedDocument) \<Rightarrow> 'T DocumentTracker \<Rightarrow> 'T DocumentTracker" where
  "for_each_value f tr = fold (\<lambda>a. on_doc a f) (map snd (documentMap tr)) tr"

subsection \<open>Configuration\<close>

text \<open>
  Modelled from the spec: \<^verbatim>\<open>configuration.initializing\<close> and \<^verbatim>\<open>configuration.changed\<close>
  (module \<^verbatim>\<open>configuration\<close>) are not among the sources. An event is the initial load or a
  change that affects some settings.
\<close>

datatype setting =
    BlameIgnoreWhitespace | AdvancedCachingEnabled | AdvancedBlameDelayAfterEdit | OtherSetting string

record ConfigurationChangeEvent =
  is_initializing :: bool
  affected :: "setting list"

definition initializing :: "ConfigurationChangeEvent \<Rightarrow> bool" where
  "initializing e = is_initializing e"

definition changed :: "ConfigurationChangeEvent \<Rightarrow> setting \<Rightarrow> bool" where
  "changed e section \<longleftrightarrow> section \<in> set (affected e)"

definition initializingChangeEvent :: ConfigurationChangeEvent where
  "initializingChangeEvent = \<lparr> is_initializing = True, affected = [] \<rparr>"

text \<open>
  \<open>delayAfterEdit\<close> is what \<^verbatim>\<open>configuration.get<number>(section)\<close> returns when the handler
  runs. The debounce object that the field referred to, if any, is from then on a
  detached one.
\<close>

definition onConfigurationChanged ::
    "int \<Rightarrow> ConfigurationChangeEvent \<Rightarrow> 'T DocumentTracker \<Rightarrow> 'T DocumentTracker" where
  "onConfigurationChanged delayAfterEdit e tr =
     (let tr1 = (if \<not> initializing e
                    \<and> (changed e BlameIgnoreWhitespace \<or> changed e AdvancedCachingEnabled)
                 then for_each_value (reset Config) tr else tr)
      in if initializing e \<or> changed e AdvancedBlameDelayAfterEdit
         then tr1 \<lparr> dirtyIdleTriggerDelay := delayAfterEdit, dirtyIdleTriggeredDebounced := None,
                    detachedIdleDebounces :=
                      (case dirtyIdleTriggeredDebounced tr1 of
                         None \<Rightarrow> detachedIdleDebounces tr1
                       | Some d \<Rightarrow> detachedIdleDebounces tr1 @ [d]) \<rparr>
         else tr1)"

subsection \<open>Construction and teardown\<close>

definition clear :: "'T DocumentTracker \<Rightarrow> 'T DocumentTracker" where
  "clear tr = (for_each_value TrackedDocument_dispose tr) \<lparr> documentMap := [] \<rparr>"

definition dispose :: "'T DocumentTracker \<Rightarrow> 'T DocumentTracker" where
  "dispose tr = clear (tr \<lparr> subscribed := False \<rparr>)"

text \<open>
  The constructor subscribes and runs \<open>onConfigurationChanged\<close> on the initializing event,
  which assigns the delay (unset before, written 0 here).
\<close>

definition new_DocumentTracker :: "int \<Rightarrow> 'T DocumentTracker" where
  "new_DocumentTracker delayAfterEdit =
     onConfigurationChanged delayAfterEdit initializingChangeEvent
       \<lparr> dirtyIdleTriggerDelay = 0, subscribed = True, documentMap = [], heap = [],
         dirtyIdleTriggeredDebounced = None, dirtyStateChangedDebounced = None,
         immediates = [], fired = [], commandContext = [],
         detachedIdleDebounces = [], awaiting = [] \<rparr>"

subsection \<open>The cache\<close>

definition addCore :: "TextDocument \<Rightarrow> 'T DocumentTracker \<Rightarrow> nat \<times> 'T DocumentTracker" where
  "addCore d tr =
     (let k = toStateKey (AsUri (uri d));
          a = length (heap tr);
          doc = new_TrackedDocument d k False
      in (a, tr \<lparr> heap := heap tr @ [doc],
                  documentMap := AList.update (ByKey k) a
                                   (AList.update (handle d) a (documentMap tr)) \<rparr>))"

datatype DocumentOrId = IdFileName string | IdDocument TextDocument | IdUri Uri

fun has :: "DocumentOrId \<Rightarrow> 'T DocumentTracker \<Rightarrow> bool" where
  "has (IdFileName s) tr \<longleftrightarrow> lookup tr (ByKey (toStateKey (AsFileName s))) \<noteq> None"
| "has (IdUri u) tr \<longleftrightarrow> lookup tr (ByKey (toStateKey (AsUri u))) \<noteq> None"
| "has (IdDocument d) tr \<longleftrightarrow> lookup tr (handle d) \<noteq> None"

subsection \<open>Dirty-state and idle dispatch\<close>

text \<open>
  \<open>fireDocumentDirtyStateChanged\<close> at time \<open>now\<close>. For a dirty event the callback goes to
  \<^verbatim>\<open>setImmediate\<close> and, when the delay is positive, the idle debounce is created if there is
  none and called; for a clean event the 250 ms debounce is created if there is none and
  called.
\<close>

definition fireDocumentDirtyStateChanged ::
    "int \<Rightarrow> DocumentDirtyStateChangeEvent \<Rightarrow> 'T DocumentTracker \<Rightarrow> 'T DocumentTracker" where
  "fireDocumentDirtyStateChanged now e tr =
     (if ds_dirty e then
        (let tr1 = tr \<lparr> immediates := immediates tr @ [e] \<rparr>
         in if dirtyIdleTriggerDelay tr1 > 0 then
              (let deb = (case dirtyIdleTriggeredDebounced tr1 of
                            None \<Rightarrow> debounce (dirtyIdleTriggerDelay tr1)
                          | Some d \<Rightarrow> d)
               in tr1 \<lparr> dirtyIdleTriggeredDebounced :=
                          Some (invoke now \<lparr> di_editor = Some (ds_editor e),
                                             di_document = ds_document e \<rparr> deb) \<rparr>)
            else tr1)
      else
        (let deb = (case dirtyStateChangedDebounced tr of
                      None \<Rightarrow> debounce 250
                    | Some d \<Rightarrow> d)
         in tr \<lparr> dirtyStateChangedDebounced := Some (invoke now e deb) \<rparr>))"

text \<open>
  The deferred callbacks. \<open>activeTextEditor\<close> is \<^verbatim>\<open>window.activeTextEditor\<close> when the callback
  runs. Each callback runs up to its \<^verbatim>\<open>await e.document.ensureInitialized()\<close> and is
  suspended there; nothing is checked again after the \<^verbatim>\<open>await\<close>.
\<close>

definition active_is :: "TextEditor option \<Rightarrow> TextEditor \<Rightarrow> bool" where
  "active_is activeTextEditor ed =
     (case activeTextEditor of None \<Rightarrow> False | Some a \<Rightarrow> same_editor a ed)"

definition suspend :: "continuation \<Rightarrow> 'T DocumentTracker \<Rightarrow> 'T DocumentTracker" where
  "suspend k tr = tr \<lparr> awaiting := awaiting tr @ [k] \<rparr>"

text \<open>The callback handed to \<^verbatim>\<open>setImmediate\<close> for a dirty event.\<close>

definition dirtyStateChangedImmediate ::
    "TextEditor option \<Rightarrow> DocumentDirtyStateChangeEvent
       \<Rightarrow> 'T DocumentTracker \<Rightarrow> 'T DocumentTracker" where
  "dirtyStateChangedImmediate activeTextEditor e tr =
     (let tr1 = (case dirtyStateChangedDebounced tr of
                   None \<Rightarrow> tr
                 | Some d \<Rightarrow> tr \<lparr> dirtyStateChangedDebounced := Some (cancel d) \<rparr>)
      in if \<not> active_is activeTextEditor (ds_editor e) then tr1
         else suspend (DirtyStateAwaited e) tr1)"

text \<open>
  The callback of an idle debounce. It reads the field
  \<^verbatim>\<open>this._dirtyIdleTriggeredDebounced\<close>, whichever debounce object is running it.
\<close>

definition dirtyIdleTriggered ::
    "DocumentDirtyIdleTriggerEvent \<Rightarrow> 'T DocumentTracker \<Rightarrow> 'T DocumentTracker" where
  "dirtyIdleTriggered e tr =
     (if (case dirtyIdleTriggeredDebounced tr of None \<Rightarrow> False | Some d \<Rightarrow> pending d) then tr
      else suspend (DirtyIdleAwaited e) tr)"

text \<open>The callback of the 250 ms debounce for a clean event.\<close>

definition dirtyStateChanged ::
    "TextEditor option \<Rightarrow> DocumentDirtyStateChangeEvent
       \<Rightarrow> 'T DocumentTracker \<Rightarrow> 'T DocumentTracker" where
  "dirtyStateChanged activeTextEditor e tr =
     (if \<not> active_is activeTextEditor (ds_editor e) then tr
      else suspend (DirtyStateAwaited e) tr)"

text \<open>
  What follows the \<^verbatim>\<open>await\<close>: when the initialization succeeds the continuation writes
  its flag and fires its event; when it fails the callback's promise rejects and nothing
  is fired. \<open>loads\<close> says for which buffers the initialization succeeds.
\<close>

definition initialize_and_fire ::
    "(TextDocument \<Rightarrow> bool) \<Rightarrow> nat \<Rightarrow> ('T TrackedDocument \<Rightarrow> 'T TrackedDocument) \<Rightarrow> fired_event
       \<Rightarrow> 'T DocumentTracker \<Rightarrow> 'T DocumentTracker" where
  "initialize_and_fire loads a f ev tr =
     (case ensureInitialized loads (heap tr ! a) of
        Inl err \<Rightarrow> tr
      | Inr td \<Rightarrow> tr \<lparr> heap := (heap tr)[a := f td], fired := fired tr @ [ev] \<rparr>)"

fun resumed ::
    "(TextDocument \<Rightarrow> bool) \<Rightarrow> continuation \<Rightarrow> 'T DocumentTracker \<Rightarrow> 'T DocumentTracker" where
  "resumed loads (DirtyStateAwaited e) tr =
     initialize_and_fire loads (ds_document e) (\<lambda>td. td) (DidChangeDirtyState e) tr"
| "resumed loads (DirtyIdleAwaited e) tr =
     initialize_and_fire loads (di_document e) (\<lambda>td. td \<lparr> isDirtyIdle := True \<rparr>)
       (DidTriggerDirtyIdle e) tr"

text \<open>The suspended callback at position \<open>i\<close> resumes.\<close>

definition continuationResumed ::
    "(TextDocument \<Rightarrow> bool) \<Rightarrow> nat \<Rightarrow> 'T DocumentTracker \<Rightarrow> 'T DocumentTracker" where
  "continuationResumed loads i tr =
     (if i < length (awaiting tr)
      then resumed loads (awaiting tr ! i)
             (tr \<lparr> awaiting := take i (awaiting tr) @ drop (Suc i) (awaiting tr) \<rparr>)
      else tr)"

text \<open>The host runs the queued \<^verbatim>\<open>setImmediate\<close> callbacks, oldest first.\<close>

definition runImmediates :: "TextEditor option \<Rightarrow> 'T DocumentTracker \<Rightarrow> 'T DocumentTracker" where
  "runImmediates activeTextEditor tr =
     fold (dirtyStateChangedImmediate activeTextEditor) (immediates tr)
       (tr \<lparr> immediates := [] \<rparr>)"

text \<open>
  The host's clock reaches \<open>now\<close>: a pending invocation that is due leaves its debounce
  object and the callback runs. This happens to the debounce objects the tracker's
  fields refer to and to the detached ones alike.
\<close>

definition idleTimerElapsed :: "int \<Rightarrow> 'T DocumentTracker \<Rightarrow> 'T DocumentTracker" where
  "idleTimerElapsed now tr =
     (case dirtyIdleTriggeredDebounced tr of
        None \<Rightarrow> tr
      | Some d \<Rightarrow>
          (case due now d of
             None \<Rightarrow> tr
           | Some e \<Rightarrow> dirtyIdleTriggered e
                        (tr \<lparr> dirtyIdleTriggeredDebounced := Some (cancel d) \<rparr>)))"

definition detachedIdleTimerElapsed ::
    "nat \<Rightarrow> int \<Rightarrow> 'T DocumentTracker \<Rightarrow> 'T DocumentTracker" where
  "detachedIdleTimerElapsed i now tr =
     (if i < length (detachedIdleDebounces tr)
      then (case due now (detachedIdleDebounces tr ! i) of
              None \<Rightarrow> tr
            | Some e \<Rightarrow> dirtyIdleTriggered e
                         (tr \<lparr> detachedIdleDebounces :=
                                 (detachedIdleDebounces tr)[i := cancel (detachedIdleDebounces tr ! i)] \<rparr>))
      else tr)"

definition cleanTimerElapsed ::
    "int \<Rightarrow> TextEditor option \<Rightarrow> 'T DocumentTracker \<Rightarrow> 'T DocumentTracker" where
  "cleanTimerElapsed now activeTextEditor tr =
     (case dirtyStateChangedDebounced tr of
        None \<Rightarrow> tr
      | Some d \<Rightarrow>
          (case due now d of
             None \<Rightarrow> tr
           | Some e \<Rightarrow> dirtyStateChanged activeTextEditor e
                        (tr \<lparr> dirtyStateChangedDebounced := Some (cancel d) \<rparr>)))"

subsection \<open>Editor events\<close>

text \<open>
  Modelled from the spec: \<^verbatim>\<open>isActiveDocument\<close> (module \<^verbatim>\<open>constants\<close>) is not among the
  sources: "this document is presently the active editor's document".
\<close>

definition isActiveDocument :: "TextEditor option \<Rightarrow> TextDocument \<Rightarrow> bool" where
  "isActiveDocument activeTextEditor d =
     (case activeTextEditor of
        None \<Rightarrow> False
      | Some ed \<Rightarrow> same_document (editor_document ed) d)"

text \<open>
  \<^verbatim>\<open>DocumentSchemes.File\<close> (module \<^verbatim>\<open>constants\<close>) is the scheme of local files.
\<close>

definition DocumentSchemes_File :: string where
  "DocumentSchemes_File = ''file''"

text \<open>
  \<open>isTextEditor\<close> (module \<^verbatim>\<open>constants\<close>, not among the sources) is a parameter of the
  handler.
\<close>

definition onActiveTextEditorChanged ::
    "(TextEditor \<Rightarrow> bool) \<Rightarrow> TextEditor option \<Rightarrow> 'T DocumentTracker \<Rightarrow> 'T DocumentTracker" where
  "onActiveTextEditorChanged isTextEditor editor tr =
     (case editor of
        None \<Rightarrow>
          tr \<lparr> commandContext := commandContext tr @
                 [(ActiveIsRevision, False), (ActiveFileIsTracked, False),
                  (ActiveIsBlameable, False), (ActiveHasRemote, False)] \<rparr>
      | Some ed \<Rightarrow>
          if \<not> isTextEditor ed then tr
          else (case lookup tr (handle (editor_document ed)) of
                  Some a \<Rightarrow> on_doc a activate tr
                | None \<Rightarrow> snd (addCore (editor_document ed) tr)))"

text \<open>
  \<open>now\<close> is the host's clock and \<open>activeTextEditor\<close> is \<^verbatim>\<open>window.activeTextEditor\<close> when the
  handler runs.
\<close>

definition onTextDocumentChanged ::
    "int \<Rightarrow> TextEditor option \<Rightarrow> TextDocumentChangeEvent \<Rightarrow> 'T DocumentTracker
       \<Rightarrow> 'T DocumentTracker" where
  "onTextDocumentChanged now activeTextEditor e tr =
     (if scheme (uri (e_document e)) \<noteq> DocumentSchemes_File then tr
      else
        (let (a, tr1) = (case lookup tr (handle (e_document e)) of
                           Some a \<Rightarrow> (a, tr)
                         | None \<Rightarrow> addCore (e_document e) tr);
             tr2 = on_doc a (reset Document) tr1;
             dty = isDirty (e_document e);
             editor = activeTextEditor;
             tr3 = (case dirtyIdleTriggeredDebounced tr2 of
                      None \<Rightarrow> tr2
                    | Some deb \<Rightarrow>
                        if dty
                        then tr2 \<lparr> dirtyIdleTriggeredDebounced :=
                                     Some (invoke now \<lparr> di_editor = editor, di_document = a \<rparr> deb) \<rparr>
                        else tr2 \<lparr> dirtyIdleTriggeredDebounced := Some (cancel deb) \<rparr>)
         in if \<not> forceDirtyStateChangeOnNextDocumentChange (heap tr3 ! a)
               \<and> dirty (heap tr3 ! a) = dty
            then tr3
            else
              (let tr4 = on_doc a (\<lambda>td. (resetForceDirtyStateChangeOnNextDocumentChange td)
                                           \<lparr> dirty := dty \<rparr>) tr3
               in case editor of
                    None \<Rightarrow> tr4
                  | Some ed \<Rightarrow>
                      if \<not> same_document (editor_document ed) (e_document e) then tr4
                      else fireDocumentDirtyStateChanged now
                             \<lparr> ds_editor = ed, ds_document = a, ds_dirty = dirty (heap tr4 ! a) \<rparr>
                             tr4)))"

definition onTextDocumentClosed :: "TextDocument \<Rightarrow> 'T DocumentTracker \<Rightarrow> 'T DocumentTracker" where
  "onTextDocumentClosed d tr =
     (case lookup tr (handle d) of
        None \<Rightarrow> tr
      | Some a \<Rightarrow>
          (let tr1 = on_doc a TrackedDocument_dispose tr;
               tr2 = tr1 \<lparr> documentMap := AList.delete (handle d) (documentMap tr1) \<rparr>
           in tr2 \<lparr> documentMap := AList.delete (ByKey (key (heap tr2 ! a))) (documentMap tr2) \<rparr>))"

definition onTextDocumentSaved ::
    "TextEditor option \<Rightarrow> TextDocument \<Rightarrow> 'T DocumentTracker \<Rightarrow> 'T DocumentTracker" where
  "onTextDocumentSaved activeTextEditor d tr =
     (case lookup tr (handle d) of
        Some a \<Rightarrow> on_doc a (update True) tr
      | None \<Rightarrow>
          if isActiveDocument activeTextEditor d then snd (addCore d tr) else tr)"

subsection \<open>add\<close>

text \<open>
  \<open>_add\<close> is an asynchronous function; it runs in segments that end at its
  \<^verbatim>\<open>await\<close>s. A call is in one of these stages: not started; the buffer has been opened
  and \<open>addCore\<close> comes next; \<open>addCore\<close> has returned the entry at an address and
  \<open>ensureInitialized\<close> comes next; the promise has resolved with the entry or rejected.
  \<open>openTextDocument\<close> is the host's \<^verbatim>\<open>workspace.openTextDocument\<close>.
\<close>

datatype add_call =
    Called DocumentOrId
  | Opened TextDocument
  | Added nat
  | Resolved nat
  | Rejected error

fun identity_of :: "DocumentOrId \<Rightarrow> FileNameOrUri + TextDocument" where
  "identity_of (IdFileName s) = Inl (AsFileName s)"
| "identity_of (IdUri u) = Inl (AsUri u)"
| "identity_of (IdDocument d) = Inr d"

definition add_addCore :: "TextDocument \<Rightarrow> 'T DocumentTracker \<Rightarrow> add_call \<times> 'T DocumentTracker" where
  "add_addCore d tr = (let (a, tr1) = addCore d tr in (Added a, tr1))"

fun add_step ::
    "(FileNameOrUri \<Rightarrow> error + TextDocument) \<Rightarrow> (TextDocument \<Rightarrow> bool) \<Rightarrow> add_call
       \<Rightarrow> 'T DocumentTracker \<Rightarrow> add_call \<times> 'T DocumentTracker" where
  "add_step openTextDocument loads (Called documentOrId) tr =
     (case identity_of documentOrId of
        Inr d \<Rightarrow> add_addCore d tr
      | Inl i \<Rightarrow> (case openTextDocument i of
                   Inl err \<Rightarrow> (Rejected err, tr)
                 | Inr d \<Rightarrow> (Opened d, tr)))"
| "add_step openTextDocument loads (Opened d) tr = add_addCore d tr"
| "add_step openTextDocument loads (Added a) tr =
     (case ensureInitialized loads (heap tr ! a) of
        Inl err \<Rightarrow> (Rejected err, tr)
      | Inr td \<Rightarrow> (Resolved a, tr \<lparr> heap := (heap tr)[a := td] \<rparr>))"
| "add_step openTextDocument loads (Resolved a) tr = (Resolved a, tr)"
| "add_step openTextDocument loads (Rejected err) tr = (Rejected err, tr)"

text \<open>One call of \<open>add\<close> run to its end with nothing in between.\<close>

definition add ::
    "(FileNameOrUri \<Rightarrow> error + TextDocument) \<Rightarrow> (TextDocument \<Rightarrow> bool) \<Rightarrow> DocumentOrId
       \<Rightarrow> 'T DocumentTracker \<Rightarrow> add_call \<times> 'T DocumentTracker" where
  "add openTextDocument loads documentOrId tr =
     (let step = (\<lambda>(c, t). add_step openTextDocument loads c t)
      in step (step (step (Called documentOrId, tr))))"

text \<open>
  Several calls in flight: the schedule names, segment by segment, the call that runs
  next.
\<close>

fun run_adds ::
    "(FileNameOrUri \<Rightarrow> error + TextDocument) \<Rightarrow> (TextDocument \<Rightarrow> bool) \<Rightarrow> nat list
       \<Rightarrow> add_call list \<times> 'T DocumentTracker \<Rightarrow> add_call list \<times> 'T DocumentTracker" where
  "run_adds openTextDocument loads [] (cs, tr) = (cs, tr)"
| "run_adds openTextDocument loads (i # sched) (cs, tr) =
     (if i < length cs
      then (let (c, tr1) = add_step openTextDocument loads (cs ! i) tr
            in run_adds openTextDocument loads sched (cs[i := c], tr1))
      else run_adds openTextDocument loads sched (cs, tr))"

text \<open>The entry a call holds, once \<open>addCore\<close> has returned it.\<close>

fun entry_of :: "add_call \<Rightarrow> nat option" where
  "entry_of (Added a) = Some a"
| "entry_of (Resolved a) = Some a"
| "entry_of c = None"

text \<open>
  How far a call has come: 2 once \<open>addCore\<close> has run in it, 3 once its promise has
  settled.
\<close>

fun stage :: "add_call \<Rightarrow> nat" where
  "stage (Called documentOrId) = 0"
| "stage (Opened d) = 1"
| "stage (Added a) = 2"
| "stage (Resolved a) = 3"
| "stage (Rejected err) = 3"

subsection \<open>Histories\<close>

text \<open>
  What can happen to a tracker: the five editor events reach their handlers, a caller
  starts an \<open>add\<close> or one in flight resumes after an \<^verbatim>\<open>await\<close>, \<open>clear\<close> or \<open>dispose\<close> is
  called, the host runs the queued immediates, a timer elapses, or a suspended callback
  resumes. Every action carries what the code reads from the host at that moment. The host's \<open>isTextEditor\<close>,
  \<open>openTextDocument\<close> and \<open>loads\<close> are fixed for a history. The constructor wraps
  two of the handlers in a debounce of its own (0 ms and 50 ms); an event here is a run
  of the handler, whenever the wrapper lets it run, also after \<open>dispose\<close>.
\<close>

record Host =
  host_isTextEditor :: "TextEditor \<Rightarrow> bool"
  host_openTextDocument :: "FileNameOrUri \<Rightarrow> error + TextDocument"
  host_loads :: "TextDocument \<Rightarrow> bool"

datatype action =
    ConfigurationChanged int ConfigurationChangeEvent
  | ActiveTextEditorChanged "TextEditor option"
  | TextDocumentChanged int "TextEditor option" TextDocumentChangeEvent
  | TextDocumentClosed TextDocument
  | TextDocumentSaved "TextEditor option" TextDocument
  | AddCalled DocumentOrId
  | AddResumed nat
  | ClearCalled
  | DisposeCalled
  | ImmediatesRun "TextEditor option"
  | IdleTimerElapsed int
  | DetachedIdleTimerElapsed nat int
  | CleanTimerElapsed int "TextEditor option"
  | ContinuationResumed nat

fun perform ::
    "Host \<Rightarrow> action \<Rightarrow> add_call list \<times> 'T DocumentTracker \<Rightarrow> add_call list \<times> 'T DocumentTracker" where
  "perform h (ConfigurationChanged delayAfterEdit e) (cs, tr) =
     (cs, onConfigurationChanged delayAfterEdit e tr)"
| "perform h (ActiveTextEditorChanged editor) (cs, tr) =
     (cs, onActiveTextEditorChanged (host_isTextEditor h) editor tr)"
| "perform h (TextDocumentChanged now activeTextEditor e) (cs, tr) =
     (cs, onTextDocumentChanged now activeTextEditor e tr)"
| "perform h (TextDocumentClosed d) (cs, tr) = (cs, onTextDocumentClosed d tr)"
| "perform h (TextDocumentSaved activeTextEditor d) (cs, tr) =
     (cs, onTextDocumentSaved activeTextEditor d tr)"
| "perform h (AddCalled documentOrId) (cs, tr) =
     (let (c, tr1) = add_step (host_openTextDocument h) (host_loads h) (Called documentOrId) tr
      in (cs @ [c], tr1))"
| "perform h (AddResumed i) (cs, tr) =
     run_adds (host_openTextDocument h) (host_loads h) [i] (cs, tr)"
| "perform h ClearCalled (cs, tr) = (cs, clear tr)"
| "perform h DisposeCalled (cs, tr) = (cs, dispose tr)"
| "perform h (ImmediatesRun activeTextEditor) (cs, tr) = (cs, runImmediates activeTextEditor tr)"
| "perform h (IdleTimerElapsed now) (cs, tr) = (cs, idleTimerElapsed now tr)"
| "perform h (DetachedIdleTimerElapsed i now) (cs, tr) = (cs, detachedIdleTimerElapsed i now tr)"
| "perform h (CleanTimerElapsed now activeTextEditor) (cs, tr) =
     (cs, cleanTimerElapsed now activeTextEditor tr)"
| "perform h (ContinuationResumed i) (cs, tr) = (cs, continuationResumed (host_loads h) i tr)"

text \<open>The tracker after a history that starts at its construction.\<close>

definition history ::
    "Host \<Rightarrow> int \<Rightarrow> action list \<Rightarrow> add_call list \<times> 'T DocumentTracker" where
  "history h delayAfterEdit acts = fold (perform h) acts ([], new_DocumentTracker delayAfterEdit)"

definition tracker_after :: "Host \<Rightarrow> int \<Rightarrow> action list \<Rightarrow> 'T DocumentTracker" where
  "tracker_after h delayAfterEdit acts = snd (history h delayAfterEdit acts)"

text \<open>An action in which a change event reports the buffer \<open>d\<close> dirty to the handler.\<close>

fun reports_dirty :: "TextDocument \<Rightarrow> action \<Rightarrow> bool" where
  "reports_dirty d (TextDocumentChanged now activeTextEditor e) \<longleftrightarrow>
     same_document (e_document e) d \<and> isDirty (e_document e)"
| "reports_dirty d act \<longleftrightarrow> False"

subsection \<open>Well-formed trackers\<close>

text \<open>
  What holds of the cache in every history: the map's keys are distinct; every entry's
  address is in the store and its tracked document is not disposed; an entry under a
  buffer belongs to the tracked document of that buffer, whose key is the buffer's state
  key; an entry under a string belongs to a tracked document with that key, which is also
  the entry under its own buffer. The idle debounce, when there is one, waits for the
  stored delay, which is positive.
\<close>

definition entry_ok :: "'T DocumentTracker \<Rightarrow> mapkey \<Rightarrow> nat \<Rightarrow> bool" where
  "entry_ok tr k a \<longleftrightarrow>
     a < length (heap tr) \<and> \<not> disposed (heap tr ! a)
     \<and> (case k of
          ByDocument i u \<Rightarrow>
            handle (document (heap tr ! a)) = k \<and> key (heap tr ! a) = toStateKey (AsUri u)
        | ByKey s \<Rightarrow>
            key (heap tr ! a) = s \<and> lookup tr (handle (document (heap tr ! a))) = Some a)"

text \<open>Every entry of the map has its tracked document in the store.\<close>

definition store_ok :: "'T DocumentTracker \<Rightarrow> bool" where
  "store_ok tr \<longleftrightarrow> list_all (\<lambda>(k, a). a < length (heap tr)) (documentMap tr)"

definition idle_ok :: "'T DocumentTracker \<Rightarrow> bool" where
  "idle_ok tr \<longleftrightarrow>
     (case dirtyIdleTriggeredDebounced tr of
        None \<Rightarrow> True
      | Some d \<Rightarrow> wait d = dirtyIdleTriggerDelay tr \<and> 0 < dirtyIdleTriggerDelay tr)"

definition cache_ok :: "'T DocumentTracker \<Rightarrow> bool" where
  "cache_ok tr \<longleftrightarrow>
     distinct (map fst (documentMap tr))
     \<and> list_all (\<lambda>(k, a). entry_ok tr k a) (documentMap tr)"

definition tracker_inv :: "'T DocumentTracker \<Rightarrow> bool" where
  "tracker_inv tr \<longleftrightarrow> cache_ok tr \<and> idle_ok tr"

text \<open>The keys under which the tracked document at an address is reachable.\<close>

definition keys_of :: "'T DocumentTracker \<Rightarrow> nat \<Rightarrow> mapkey list" where
  "keys_of tr a = map fst (filter (\<lambda>(k, b). b = a) (documentMap tr))"

text \<open>The calls in flight hold entries of the store, each its own.\<close>

definition calls_inv :: "add_call list \<Rightarrow> 'T DocumentTracker \<Rightarrow> bool" where
  "calls_inv cs tr \<longleftrightarrow>
     (\<forall>i<length cs. \<forall>a. entry_of (cs ! i) = Some a \<longrightarrow>
        a < length (heap tr) \<and> (\<forall>j<length cs. entry_of (cs ! j) = Some a \<longrightarrow> j = i))"

text \<open>
  A stored dirty flag is set only where a change event has reported the buffer dirty:
  \<open>acts\<close> are the actions so far.
\<close>

definition flags :: "'T DocumentTracker \<Rightarrow> (TextDocument \<times> bool) list" where
  "flags tr = map (\<lambda>td. (document td, dirty td)) (heap tr)"

definition dirty_inv :: "action list \<Rightarrow> 'T DocumentTracker \<Rightarrow> bool" where
  "dirty_inv acts tr \<longleftrightarrow>
     list_all (\<lambda>(d, b). b \<longrightarrow> list_ex (reports_dirty d) acts) (flags tr)"

text \<open>The buffer an identity passed to \<open>add\<close> stands for.\<close>

definition resolves_to ::
    "(FileNameOrUri \<Rightarrow> error + TextDocument) \<Rightarrow> DocumentOrId \<Rightarrow> TextDocument \<Rightarrow> bool" where
  "resolves_to openTextDocument documentOrId d \<longleftrightarrow>
     (case identity_of documentOrId of
        Inr d' \<Rightarrow> d' = d
      | Inl i \<Rightarrow> openTextDocument i = Inr d)"

text \<open>
  What holds while calls of \<open>add\<close> for one identity, which stands for the buffer \<open>d\<close>,
  run on a tracker that was \<open>tr0\<close> when they started: the tracker is well formed; the
  calls hold entries of their own; every call is not started, or has opened \<open>d\<close>, or
  holds an entry created since the start, or has rejected because the initialization
  failed; the store has grown by one tracked document for every call in which
  \<open>addCore\<close> has run; the tracked documents that were there keep their buffer and key;
  the ones created since are tracked documents of \<open>d\<close>; and once one has been created,
  the buffer and the state key of \<open>d\<close> both lead to the one created last.
\<close>

definition adds_inv ::
    "'T DocumentTracker \<Rightarrow> DocumentOrId \<Rightarrow> TextDocument \<Rightarrow> add_call list \<Rightarrow> 'T DocumentTracker
       \<Rightarrow> bool" where
  "adds_inv tr0 documentOrId d cs tr \<longleftrightarrow>
     tracker_inv tr \<and> calls_inv cs tr
     \<and> length (heap tr) = length (heap tr0) + length (filter (\<lambda>c. 2 \<le> stage c) cs)
     \<and> (\<forall>c\<in>set cs. c = Called documentOrId \<or> c = Opened d \<or> c = Rejected InitializationFailed
                     \<or> (\<exists>a. entry_of c = Some a \<and> length (heap tr0) \<le> a))
     \<and> (\<forall>a<length (heap tr0).
           document (heap tr ! a) = document (heap tr0 ! a) \<and> key (heap tr ! a) = key (heap tr0 ! a))
     \<and> (\<forall>a. length (heap tr0) \<le> a \<and> a < length (heap tr) \<longrightarrow>
           document (heap tr ! a) = d \<and> key (heap tr ! a) = toStateKey (AsUri (uri d)))
     \<and> (if length (heap tr0) < length (heap tr)
         then lookup tr (handle d) = Some (length (heap tr) - 1)
              \<and> lookup tr (ByKey (toStateKey (AsUri (uri d)))) = Some (length (heap tr) - 1)
         else documentMap tr = documentMap tr0)"

section \<open>The show-line-blame command\<close>

text \<open>
  \<open>execute\<close> is an \<^verbatim>\<open>async\<close> function. A call inside it either throws or returns; what it
  returns is a plain value or a thenable, which settles as fulfilled or rejected. The
  function's own promise rejects with an exception that leaves the body, is fulfilled
  with a plain value the body returns, and follows a thenable the body returns. A
  \<^verbatim>\<open>try\<close> block catches what is thrown inside it; \<^verbatim>\<open>return\<close> of a thenable without
  \<^verbatim>\<open>await\<close> hands the thenable on as it is.
\<close>

datatype exn = Exn string

datatype 'v settled = Fulfilled 'v | RejectedWith exn

datatype 'v returned = Plain 'v | Thenable "'v settled"

datatype 'v completion = Return "'v returned" | Throw exn

datatype jsvalue = Undefined | Value string

datatype LineAnnotationType = Trailing | Hover

record ShowLineBlameCommandArgs =
  type_arg :: "LineAnnotationType option"

text \<open>What \<open>execute\<close> did, in order.\<close>

datatype effect =
    ConfigurationGet
  | ShowAnnotations TextEditor LineAnnotationType
  | LoggerError exn string
  | ShowErrorMessage string

definition async_result :: "'v completion \<Rightarrow> 'v settled" where
  "async_result c =
     (case c of
        Throw ex \<Rightarrow> RejectedWith ex
      | Return (Plain v) \<Rightarrow> Fulfilled v
      | Return (Thenable s) \<Rightarrow> s)"

text \<open>
  The collaborators are parameters: \<open>configuration_get\<close> is
  \<^verbatim>\<open>configuration.get<LineAnnotationType>(...)\<close>, \<open>showAnnotations\<close> is
  \<^verbatim>\<open>Container.lineAnnotations.showAnnotations\<close>, \<open>showErrorMessage\<close> is
  \<^verbatim>\<open>window.showErrorMessage\<close>; \<^verbatim>\<open>Logger.error\<close> writes to the log.
\<close>

record Collaborators =
  configuration_get :: "exn + LineAnnotationType"
  showAnnotations :: "TextEditor \<Rightarrow> LineAnnotationType \<Rightarrow> jsvalue completion"
  showErrorMessage :: "string \<Rightarrow> jsvalue completion"

definition catch_block :: "Collaborators \<Rightarrow> effect list \<Rightarrow> exn \<Rightarrow> effect list \<times> jsvalue completion" where
  "catch_block env effs ex =
     (let msg = ''Unable to show line blame annotations. See output channel for more details''
      in (effs @ [LoggerError ex ''ShowLineBlameCommand'', ShowErrorMessage msg],
          showErrorMessage env msg))"

definition execute_body ::
    "Collaborators \<Rightarrow> TextEditor option \<Rightarrow> ShowLineBlameCommandArgs
       \<Rightarrow> effect list \<times> jsvalue completion" where
  "execute_body env editor args =
     (case editor of
        None \<Rightarrow> ([], Return (Plain Undefined))
      | Some ed \<Rightarrow>
          (let (effs, ty) = (case type_arg args of
                               Some t \<Rightarrow> ([], Inr t)
                             | None \<Rightarrow> ([ConfigurationGet], configuration_get env))
           in case ty of
                Inl ex \<Rightarrow> catch_block env effs ex
              | Inr t \<Rightarrow>
                  (case showAnnotations env ed t of
                     Throw ex \<Rightarrow> catch_block env (effs @ [ShowAnnotations ed t]) ex
                   | Return r \<Rightarrow> (effs @ [ShowAnnotations ed t], Return r))))"

definition execute ::
    "Collaborators \<Rightarrow> TextEditor option \<Rightarrow> ShowLineBlameCommandArgs
       \<Rightarrow> effect list \<times> jsvalue settled" where
  "execute env editor args =
     (let (effs, c) = execute_body env editor args in (effs, async_result c))"

section \<open>Sample values\<close>

text \<open>
  Two local files whose paths differ only in case (two different files where the file
  system is case-sensitive), an untitled buffer, editors on them, a host, and
  configuration events. The buffers are dirty when the events below read them.
\<close>

definition fileA :: TextDocument where
  "fileA = \<lparr> doc_id = 1, uri = \<lparr> scheme = ''file'', fsPath = ''/work/App.ts'' \<rparr>, isDirty = True \<rparr>"

definition fileB :: TextDocument where
  "fileB = \<lparr> doc_id = 2, uri = \<lparr> scheme = ''file'', fsPath = ''/work/app.ts'' \<rparr>, isDirty = True \<rparr>"

definition untitled :: TextDocument where
  "untitled = \<lparr> doc_id = 3, uri = \<lparr> scheme = ''untitled'', fsPath = ''Untitled-1'' \<rparr>, isDirty = True \<rparr>"

definition editorA :: TextEditor where
  "editorA = \<lparr> editor_id = 1, editor_document = fileA \<rparr>"

definition editorU :: TextEditor where
  "editorU = \<lparr> editor_id = 3, editor_document = untitled \<rparr>"

definition sample_host :: Host where
  "sample_host = \<lparr> host_isTextEditor = (\<lambda>ed. True),
                    host_openTextDocument = (\<lambda>i. Inl OpenFailed),
                    host_loads = (\<lambda>d. True) \<rparr>"

definition whitespace_changed :: ConfigurationChangeEvent where
  "whitespace_changed = \<lparr> is_initializing = False, affected = [BlameIgnoreWhitespace] \<rparr>"

definition delay_changed :: ConfigurationChangeEvent where
  "delay_changed = \<lparr> is_initializing = False, affected = [AdvancedBlameDelayAfterEdit] \<rparr>"

text \<open>A tracker for which \<open>fileA\<close> is tracked, dirty, and has a cached bundle.\<close>

definition sample_tracker :: "unit DocumentTracker" where
  "sample_tracker =
     on_doc 0 (\<lambda>td. td \<lparr> dirty := True, state := Some () \<rparr>)
       (snd (addCore fileA (new_DocumentTracker 5000)))"

text \<open>
  The tracker after its first event: at time 0 the editor on \<open>fileA\<close> is active and
  \<open>fileA\<close> changes.
\<close>

definition fileA_changed :: TextDocumentChangeEvent where
  "fileA_changed = \<lparr> e_document = fileA \<rparr>"

definition fileB_changed :: TextDocumentChangeEvent where
  "fileB_changed = \<lparr> e_document = fileB \<rparr>"

definition untitled_changed :: TextDocumentChangeEvent where
  "untitled_changed = \<lparr> e_document = untitled \<rparr>"

definition edited_tracker :: "unit DocumentTracker" where
  "edited_tracker = onTextDocumentChanged 0 (Some editorA) fileA_changed (new_DocumentTracker 5000)"

text \<open>The tracker after the editor on \<open>fileA\<close> has become active.\<close>

definition activated_tracker :: "unit DocumentTracker" where
  "activated_tracker = tracker_after sample_host 5000 [ActiveTextEditorChanged (Some editorA)]"

text \<open>The tracker after the editor on the untitled buffer has become active.\<close>

definition untitled_tracker :: "unit DocumentTracker" where
  "untitled_tracker = tracker_after sample_host 5000 [ActiveTextEditorChanged (Some editorU)]"

text \<open>The tracker after \<open>fileA\<close> and then \<open>fileB\<close> have been edited.\<close>

definition two_files_tracker :: "unit DocumentTracker" where
  "two_files_tracker =
     tracker_after sample_host 5000
       [TextDocumentChanged 0 (Some editorA) fileA_changed,
        TextDocumentChanged 1 (Some editorA) fileB_changed]"

text \<open>
  Two calls of \<open>add\<close> for \<open>fileA\<close>, which is tracked already, taking turns segment by
  segment.
\<close>

definition two_adds :: "add_call list \<times> unit DocumentTracker" where
  "two_adds =
     run_adds (host_openTextDocument sample_host) (host_loads sample_host) [0, 1, 0, 1, 0, 1]
       (replicate 2 (Called (IdDocument fileA)), edited_tracker)"



section \<open>The state key is canonical\<close>




























section \<open>Method calls on stored tracked documents\<close>

lemma on_doc_fields [simp]:
  "dirtyIdleTriggerDelay (on_doc a f tr) = dirtyIdleTriggerDelay tr"
  "subscribed (on_doc a f tr) = subscribed tr"
  "documentMap (on_doc a f tr) = documentMap tr"
  "dirtyIdleTriggeredDebounced (on_doc a f tr) = dirtyIdleTriggeredDebounced tr"
  "dirtyStateChangedDebounced (on_doc a f tr) = dirtyStateChangedDebounced tr"
  "immediates (on_doc a f tr) = immediates tr"
  "fired (on_doc a f tr) = fired tr"
  "commandContext (on_doc a f tr) = commandContext tr"
  "detachedIdleDebounces (on_doc a f tr) = detachedIdleDebounces tr"
  "awaiting (on_doc a f tr) = awaiting tr"
  "heap (on_doc a f tr) = (heap tr)[a := f (heap tr ! a)]"
  "lookup (on_doc a f tr) = lookup tr"
  by (simp_all add: on_doc_def lookup_def fun_eq_iff)

lemma fold_on_doc_fields:
  "dirtyIdleTriggerDelay (fold (\<lambda>a. on_doc a f) as tr) = dirtyIdleTriggerDelay tr
   \<and> subscribed (fold (\<lambda>a. on_doc a f) as tr) = subscribed tr
   \<and> documentMap (fold (\<lambda>a. on_doc a f) as tr) = documentMap tr
   \<and> dirtyIdleTriggeredDebounced (fold (\<lambda>a. on_doc a f) as tr) = dirtyIdleTriggeredDebounced tr
   \<and> dirtyStateChangedDebounced (fold (\<lambda>a. on_doc a f) as tr) = dirtyStateChangedDebounced tr
   \<and> immediates (fold (\<lambda>a. on_doc a f) as tr) = immediates tr
   \<and> fired (fold (\<lambda>a. on_doc a f) as tr) = fired tr
   \<and> commandContext (fold (\<lambda>a. on_doc a f) as tr) = commandContext tr
   \<and> detachedIdleDebounces (fold (\<lambda>a. on_doc a f) as tr) = detachedIdleDebounces tr
   \<and> awaiting (fold (\<lambda>a. on_doc a f) as tr) = awaiting tr
   \<and> length (heap (fold (\<lambda>a. on_doc a f) as tr)) = length (heap tr)"
  by (induction as arbitrary: tr) simp_all

lemma for_each_value_fields [simp]:
  "dirtyIdleTriggerDelay (for_each_value f tr) = dirtyIdleTriggerDelay tr"
  "subscribed (for_each_value f tr) = subscribed tr"
  "documentMap (for_each_value f tr) = documentMap tr"
  "dirtyIdleTriggeredDebounced (for_each_value f tr) = dirtyIdleTriggeredDebounced tr"
  "dirtyStateChangedDebounced (for_each_value f tr) = dirtyStateChangedDebounced tr"
  "immediates (for_each_value f tr) = immediates tr"
  "fired (for_each_value f tr) = fired tr"
  "commandContext (for_each_value f tr) = commandContext tr"
  "detachedIdleDebounces (for_each_value f tr) = detachedIdleDebounces tr"
  "awaiting (for_each_value f tr) = awaiting tr"
  "length (heap (for_each_value f tr)) = length (heap tr)"
  "lookup (for_each_value f tr) = lookup tr"
  using fold_on_doc_fields [of f "map snd (documentMap tr)" tr]
  by (simp_all add: for_each_value_def lookup_def fun_eq_iff)

text \<open>Applying an idempotent method to every value.\<close>

lemma fold_on_doc_heap:
  assumes "\<And>td. f (f td) = f td" and "b < length (heap tr)"
  shows "heap (fold (\<lambda>a. on_doc a f) as tr) ! b =
           (if b \<in> set as then f (heap tr ! b) else heap tr ! b)"
  using assms(2)
proof (induction as arbitrary: tr)
  case Nil
  then show ?case by simp
next
  case (Cons a as)
  then show ?case
    by (cases "a = b") (simp_all add: assms(1))
qed

lemma for_each_value_heap:
  assumes "\<And>td. f (f td) = f td" and "b < length (heap tr)"
  shows "heap (for_each_value f tr) ! b =
           (if b \<in> snd ` set (documentMap tr) then f (heap tr ! b) else heap tr ! b)"
  unfolding for_each_value_def
  using fold_on_doc_heap [of f b tr "map snd (documentMap tr)"] assms by simp

section \<open>Configuration changes\<close>

lemma reset_fields [simp]:
  "document (reset r td) = document td" "key (reset r td) = key td"
  "dirty (reset r td) = dirty td" "active (reset r td) = active td"
  "forceDirtyStateChangeOnNextDocumentChange (reset r td) = forceDirtyStateChangeOnNextDocumentChange td"
  "initialized (reset r td) = initialized td" "disposed (reset r td) = disposed td"
  "state (reset r td) = None" "resetReason (reset r td) = Some r"
  "isDirtyIdle (reset r td) = (if r = Document then False else isDirtyIdle td)"
  by (simp_all add: reset_def)

lemma reset_idem: "reset r (reset r td) = reset r td"
  by (simp add: reset_def)

lemma lookup_in_values: "lookup tr k = Some a \<Longrightarrow> a \<in> snd ` set (documentMap tr)"
  unfolding lookup_def by (metis map_of_SomeD image_eqI snd_conv)

text \<open>
  C7. A configuration change that is not the initial load and affects the blame
  ignore-whitespace setting or the caching-enabled setting resets, with reason \<open>Config\<close>,
  every tracked document of the map; the reset empties the cache and leaves the dirty
  flag, the buffer, the key, the idle, active and force flags and the initialized and
  disposed marks as they were. The initial load, and a change that affects neither
  setting, leaves every tracked document untouched. The map itself never changes.
\<close>

theorem configuration_change_resets_caches:
  fixes tr :: "'T DocumentTracker"
  shows
  "(\<not> initializing e \<and> (changed e BlameIgnoreWhitespace \<or> changed e AdvancedCachingEnabled) \<longrightarrow>
      (\<forall>k a. lookup tr k = Some a \<and> a < length (heap tr) \<longrightarrow>
         heap (onConfigurationChanged delayAfterEdit e tr) ! a = reset Config (heap tr ! a)))
   \<and> (initializing e \<or> \<not> (changed e BlameIgnoreWhitespace \<or> changed e AdvancedCachingEnabled) \<longrightarrow>
        heap (onConfigurationChanged delayAfterEdit e tr) = heap tr)
   \<and> documentMap (onConfigurationChanged delayAfterEdit e tr) = documentMap tr
   \<and> length (heap (onConfigurationChanged delayAfterEdit e tr)) = length (heap tr)
   \<and> state (reset Config td) = None \<and> resetReason (reset Config td) = Some Config
   \<and> dirty (reset Config td) = dirty (td :: 'T TrackedDocument)
   \<and> document (reset Config td) = document td \<and> key (reset Config td) = key td
   \<and> isDirtyIdle (reset Config td) = isDirtyIdle td \<and> active (reset Config td) = active td
   \<and> forceDirtyStateChangeOnNextDocumentChange (reset Config td)
        = forceDirtyStateChangeOnNextDocumentChange td
   \<and> initialized (reset Config td) = initialized td \<and> disposed (reset Config td) = disposed td"
proof -
  have a: "heap (onConfigurationChanged delayAfterEdit e tr) ! a = reset Config (heap tr ! a)"
    if "\<not> initializing e" "changed e BlameIgnoreWhitespace \<or> changed e AdvancedCachingEnabled"
       "lookup tr k = Some a" "a < length (heap tr)" for k a
    using that for_each_value_heap [of "reset Config" a tr] lookup_in_values [of tr k a]
    by (simp add: onConfigurationChanged_def Let_def reset_idem)
  have b: "heap (onConfigurationChanged delayAfterEdit e tr) = heap tr"
    if "initializing e \<or> \<not> (changed e BlameIgnoreWhitespace \<or> changed e AdvancedCachingEnabled)"
    using that by (auto simp add: onConfigurationChanged_def Let_def)
  have c: "documentMap (onConfigurationChanged delayAfterEdit e tr) = documentMap tr"
    "length (heap (onConfigurationChanged delayAfterEdit e tr)) = length (heap tr)"
    by (simp_all add: onConfigurationChanged_def Let_def)
  show ?thesis
    by (intro conjI impI allI) (auto intro: a simp: b c)
qed

subsection \<open>The sample trackers\<close>

lemma toStateKey_fileA: "toStateKey (AsUri (uri fileA)) = ''/work/app.ts''"
  by (simp add: fileA_def toStateKey_def toLowerCase_def normalizePath_def toLowerCase_char_def
      char_of_def bit_Suc_0_iff)

lemma toStateKey_fileB: "toStateKey (AsUri (uri fileB)) = ''/work/app.ts''"
  by (simp add: fileB_def toStateKey_def toLowerCase_def normalizePath_def toLowerCase_char_def)

lemma new_DocumentTracker_simp:
  "new_DocumentTracker v =
     \<lparr> dirtyIdleTriggerDelay = v, subscribed = True, documentMap = [], heap = [],
       dirtyIdleTriggeredDebounced = None, dirtyStateChangedDebounced = None,
       immediates = [], fired = [], commandContext = [],
       detachedIdleDebounces = [], awaiting = [] \<rparr>"
  by (simp add: new_DocumentTracker_def onConfigurationChanged_def initializing_def
      initializingChangeEvent_def Let_def)

lemma addCore_simp:
  "addCore d tr =
     (length (heap tr),
      tr \<lparr> heap := heap tr @ [new_TrackedDocument d (toStateKey (AsUri (uri d))) False],
           documentMap := AList.update (ByKey (toStateKey (AsUri (uri d)))) (length (heap tr))
                            (AList.update (handle d) (length (heap tr)) (documentMap tr)) \<rparr>)"
  by (simp add: addCore_def Let_def)

lemma sample_tracker_simp:
  "sample_tracker =
     \<lparr> dirtyIdleTriggerDelay = 5000, subscribed = True,
       documentMap = [(handle fileA, 0), (ByKey ''/work/app.ts'', 0)],
       heap = [(new_TrackedDocument fileA ''/work/app.ts'' False) \<lparr> dirty := True, state := Some () \<rparr>],
       dirtyIdleTriggeredDebounced = None, dirtyStateChangedDebounced = None,
       immediates = [], fired = [], commandContext = [],
       detachedIdleDebounces = [], awaiting = [] \<rparr>"
  by (simp add: sample_tracker_def addCore_simp new_DocumentTracker_simp on_doc_def
      toStateKey_fileA handle_def)

theorem configuration_change_resets_caches_witness:
  "\<not> initializing whitespace_changed \<and> changed whitespace_changed BlameIgnoreWhitespace
   \<and> lookup sample_tracker (handle fileA) = Some 0 \<and> 0 < length (heap sample_tracker)
   \<and> dirty (heap sample_tracker ! 0) \<and> state (heap sample_tracker ! 0) = Some ()
   \<and> heap (onConfigurationChanged 5000 whitespace_changed sample_tracker) ! 0
       = reset Config (heap sample_tracker ! 0)
   \<and> dirty (reset Config (heap sample_tracker ! 0))
   \<and> state (reset Config (heap sample_tracker ! 0)) = None"
proof -
  have h: "\<not> initializing whitespace_changed" "changed whitespace_changed BlameIgnoreWhitespace"
    by (simp_all add: initializing_def changed_def whitespace_changed_def)
  have l: "lookup sample_tracker (handle fileA) = Some 0" "0 < length (heap sample_tracker)"
    "dirty (heap sample_tracker ! 0)" "state (heap sample_tracker ! 0) = Some ()"
    by (simp_all add: sample_tracker_simp lookup_def)
  from configuration_change_resets_caches [of whitespace_changed sample_tracker 5000 "heap sample_tracker ! 0"]
  have "heap (onConfigurationChanged 5000 whitespace_changed sample_tracker) ! 0
       = reset Config (heap sample_tracker ! 0)"
    and "dirty (reset Config (heap sample_tracker ! 0)) = dirty (heap sample_tracker ! 0)"
    and "state (reset Config (heap sample_tracker ! 0)) = None"
    using h l by blast+
  then show ?thesis using h l by simp
qed

section \<open>The idle debounce over the tracker's life\<close>

lemma dispose_fields [simp]:
  "dirtyIdleTriggerDelay (dispose tr) = dirtyIdleTriggerDelay tr"
  "dirtyIdleTriggeredDebounced (dispose tr) = dirtyIdleTriggeredDebounced tr"
  "dirtyStateChangedDebounced (dispose tr) = dirtyStateChangedDebounced tr"
  "detachedIdleDebounces (dispose tr) = detachedIdleDebounces tr"
  "awaiting (dispose tr) = awaiting tr"
  "documentMap (dispose tr) = []" "subscribed (dispose tr) = False"
  "length (heap (dispose tr)) = length (heap tr)"
  by (simp_all add: dispose_def clear_def)

lemma sample_sel [simp]:
  "scheme (uri fileA) = ''file''" "isDirty fileA" "doc_id fileA = 1"
  "scheme (uri fileB) = ''file''" "isDirty fileB" "doc_id fileB = 2"
  "scheme (uri untitled) = ''untitled''" "isDirty untitled" "doc_id untitled = 3"
  "editor_document editorA = fileA" "editor_id editorA = 1"
  "editor_document editorU = untitled" "editor_id editorU = 3"
  "uri fileA \<noteq> uri fileB" "uri fileA \<noteq> uri untitled" "uri fileB \<noteq> uri untitled"
  by (simp_all add: fileA_def fileB_def untitled_def editorA_def editorU_def)

lemma same_document_refl [simp]: "same_document d d"
  by (simp add: same_document_def)

lemma sample_events [simp]:
  "e_document fileA_changed = fileA" "e_document fileB_changed = fileB"
  "e_document untitled_changed = untitled"
  by (simp_all add: fileA_changed_def fileB_changed_def untitled_changed_def)

lemma first_edit:
  "edited_tracker
   = \<lparr> dirtyIdleTriggerDelay = 5000, subscribed = True,
       documentMap = [(handle fileA, 0), (ByKey ''/work/app.ts'', 0)],
       heap = [(new_TrackedDocument fileA ''/work/app.ts'' False)
                 \<lparr> dirty := True, resetReason := Some Document \<rparr>],
       dirtyIdleTriggeredDebounced =
         Some \<lparr> wait = 5000,
                pendingCall = Some (5000, \<lparr> di_editor = Some editorA, di_document = 0 \<rparr>) \<rparr>,
       dirtyStateChangedDebounced = None,
       immediates = [\<lparr> ds_editor = editorA, ds_document = 0, ds_dirty = True \<rparr>],
       fired = [], commandContext = [],
       detachedIdleDebounces = [], awaiting = [] \<rparr>"
  by (simp add: edited_tracker_def onTextDocumentChanged_def new_DocumentTracker_simp addCore_simp
      lookup_def toStateKey_fileA handle_def on_doc_def reset_def new_TrackedDocument_def
      resetForceDirtyStateChangeOnNextDocumentChange_def fireDocumentDirtyStateChanged_def
      debounce_def invoke_def DocumentSchemes_File_def Let_def)

lemma tracker_after_Nil [simp]: "tracker_after h v [] = new_DocumentTracker v"
  by (simp add: tracker_after_def history_def)

lemma history_snoc: "history h v (acts @ [a]) = perform h a (history h v acts)"
  by (simp add: history_def)

text \<open>
  C8, as stated, fails for \<open>dispose\<close>: after an edit has created the idle debounce, a
  disposed tracker still holds it, with its pending invocation.
\<close>

theorem dispose_keeps_idle_debounce_counterexample:
  "dirtyIdleTriggeredDebounced
     (tracker_after sample_host 5000
        [TextDocumentChanged 0 (Some editorA) fileA_changed, DisposeCalled]
      :: unit DocumentTracker)
   = Some \<lparr> wait = 5000,
            pendingCall = Some (5000, \<lparr> di_editor = Some editorA, di_document = 0 \<rparr>) \<rparr>"
  by (simp add: tracker_after_def history_def first_edit [unfolded edited_tracker_def])

text \<open>
  C8, amended. A configuration event that is the initial load or affects the idle-delay
  setting discards the idle debounce and stores the current value of the setting; so does
  the constructor. Any other configuration event keeps both. \<open>dispose\<close> empties the map
  and drops the subscriptions, and keeps the idle debounce and the stored delay.
\<close>

theorem idle_debounce_reset_on_configuration_change:
  fixes tr :: "'T DocumentTracker"
  shows
  "(initializing e \<or> changed e AdvancedBlameDelayAfterEdit \<longrightarrow>
      dirtyIdleTriggeredDebounced (onConfigurationChanged delayAfterEdit e tr) = None
      \<and> dirtyIdleTriggerDelay (onConfigurationChanged delayAfterEdit e tr) = delayAfterEdit)
   \<and> (\<not> (initializing e \<or> changed e AdvancedBlameDelayAfterEdit) \<longrightarrow>
      dirtyIdleTriggeredDebounced (onConfigurationChanged delayAfterEdit e tr)
        = dirtyIdleTriggeredDebounced tr
      \<and> dirtyIdleTriggerDelay (onConfigurationChanged delayAfterEdit e tr)
        = dirtyIdleTriggerDelay tr)
   \<and> dirtyIdleTriggeredDebounced (new_DocumentTracker delayAfterEdit :: 'T DocumentTracker) = None
   \<and> dirtyIdleTriggerDelay (new_DocumentTracker delayAfterEdit :: 'T DocumentTracker) = delayAfterEdit
   \<and> dirtyIdleTriggeredDebounced (dispose tr) = dirtyIdleTriggeredDebounced tr
   \<and> dirtyIdleTriggerDelay (dispose tr) = dirtyIdleTriggerDelay tr
   \<and> documentMap (dispose tr) = [] \<and> \<not> subscribed (dispose tr)"
  by (simp add: onConfigurationChanged_def Let_def new_DocumentTracker_simp)

theorem idle_debounce_reset_on_configuration_change_witness:
  "changed delay_changed AdvancedBlameDelayAfterEdit
   \<and> dirtyIdleTriggeredDebounced edited_tracker \<noteq> None
   \<and> dirtyIdleTriggeredDebounced (onConfigurationChanged 3000 delay_changed edited_tracker) = None
   \<and> dirtyIdleTriggerDelay (onConfigurationChanged 3000 delay_changed edited_tracker) = 3000"
proof -
  have c: "changed delay_changed AdvancedBlameDelayAfterEdit"
    by (simp add: changed_def delay_changed_def)
  have d: "dirtyIdleTriggeredDebounced edited_tracker \<noteq> None"
    by (simp add: first_edit)
  show ?thesis
    using c d idle_debounce_reset_on_configuration_change [of delay_changed 3000 edited_tracker]
    by blast
qed

section \<open>What execute returns\<close>

lemma execute_without_editor: "execute env None args = ([], Fulfilled Undefined)"
  by (simp add: execute_def execute_body_def async_result_def)

lemma execute_catches_throw:
  "showAnnotations env ed t = Throw ex \<Longrightarrow>
   execute env (Some ed) \<lparr> type_arg = Some t \<rparr>
     = ([ShowAnnotations ed t, LoggerError ex ''ShowLineBlameCommand'',
         ShowErrorMessage ''Unable to show line blame annotations. See output channel for more details''],
        async_result (showErrorMessage env
          ''Unable to show line blame annotations. See output channel for more details''))"
  by (simp add: execute_def execute_body_def catch_block_def Let_def)

text \<open>
  C10. When \<open>showAnnotations\<close> returns a promise that rejects, \<open>execute\<close> has returned
  that promise without awaiting it: the \<^verbatim>\<open>catch\<close> block does not run, nothing is logged,
  no error message is shown, and the caller's promise rejects with the exception.
\<close>

theorem execute_returns_rejected_promise:
  "execute \<lparr> configuration_get = Inr Trailing,
             showAnnotations = (\<lambda>ed t. Return (Thenable (RejectedWith (Exn ''blame failed'')))),
             showErrorMessage = (\<lambda>msg. Return (Thenable (Fulfilled Undefined))) \<rparr>
     (Some editorA) \<lparr> type_arg = Some Hover \<rparr>
   = ([ShowAnnotations editorA Hover], RejectedWith (Exn ''blame failed''))"
  by (simp add: execute_def execute_body_def async_result_def Let_def)

section \<open>Saved documents\<close>

lemma store_ok_lookup: "store_ok tr \<Longrightarrow> lookup tr k = Some a \<Longrightarrow> a < length (heap tr)"
  unfolding store_ok_def lookup_def list_all_iff by (auto dest: map_of_SomeD)

lemma addCore_fields [simp]:
  "fst (addCore d tr) = length (heap tr)"
  "dirtyIdleTriggerDelay (snd (addCore d tr)) = dirtyIdleTriggerDelay tr"
  "subscribed (snd (addCore d tr)) = subscribed tr"
  "dirtyIdleTriggeredDebounced (snd (addCore d tr)) = dirtyIdleTriggeredDebounced tr"
  "dirtyStateChangedDebounced (snd (addCore d tr)) = dirtyStateChangedDebounced tr"
  "immediates (snd (addCore d tr)) = immediates tr"
  "fired (snd (addCore d tr)) = fired tr"
  "commandContext (snd (addCore d tr)) = commandContext tr"
  "detachedIdleDebounces (snd (addCore d tr)) = detachedIdleDebounces tr"
  "awaiting (snd (addCore d tr)) = awaiting tr"
  "heap (snd (addCore d tr)) = heap tr @ [new_TrackedDocument d (toStateKey (AsUri (uri d))) False]"
  "documentMap (snd (addCore d tr)) =
     AList.update (ByKey (toStateKey (AsUri (uri d)))) (length (heap tr))
       (AList.update (handle d) (length (heap tr)) (documentMap tr))"
  by (simp_all add: addCore_simp)

lemma lookup_addCore:
  "lookup (snd (addCore d tr)) k =
     (if k = ByKey (toStateKey (AsUri (uri d))) \<or> k = handle d then Some (length (heap tr))
      else lookup tr k)"
  by (simp add: lookup_def update_conv')

lemma update_fields [simp]:
  "document (update b td) = document td" "key (update b td) = key td"
  "dirty (update b td) = dirty td" "disposed (update b td) = disposed td"
  "isDirtyIdle (update b td) = isDirtyIdle td"
  "forceDirtyStateChangeOnNextDocumentChange (update b td) = forceDirtyStateChangeOnNextDocumentChange td"
  "state (update True td) = None" "resetReason (update True td) = Some SaveForced"
  by (simp_all add: update_def)

lemma handle_isDirty [simp]: "handle (d \<lparr> isDirty := b \<rparr>) = handle d"
  by (simp add: handle_def)

text \<open>
  C6. When a saved document is tracked under its buffer, the handler calls
  \<open>update\<close> with the force-blame flag on its tracked document and does nothing else: the
  map and the size of the store stay, the cache is emptied and tagged save-forced, the
  dirty flag stays, and the buffer's own dirty flag plays no part. When it is not tracked,
  a tracked document is created by \<open>addCore\<close> if the saved document is the active
  editor's document, and otherwise the tracker does not change.
\<close>

theorem save_updates_tracked_or_tracks_active:
  fixes tr :: "'T DocumentTracker"
  shows
  "(lookup tr (handle d) = Some a \<longrightarrow>
      onTextDocumentSaved act d tr = on_doc a (update True) tr
      \<and> documentMap (onTextDocumentSaved act d tr) = documentMap tr
      \<and> length (heap (onTextDocumentSaved act d tr)) = length (heap tr)
      \<and> onTextDocumentSaved act (d \<lparr> isDirty := b \<rparr>) tr = onTextDocumentSaved act d tr
      \<and> (a < length (heap tr) \<longrightarrow>
           heap (onTextDocumentSaved act d tr) ! a = update True (heap tr ! a)
           \<and> state (heap (onTextDocumentSaved act d tr) ! a) = None
           \<and> resetReason (heap (onTextDocumentSaved act d tr) ! a) = Some SaveForced
           \<and> dirty (heap (onTextDocumentSaved act d tr) ! a) = dirty (heap tr ! a)))
   \<and> (lookup tr (handle d) = None \<and> isActiveDocument act d \<longrightarrow>
        onTextDocumentSaved act d tr = snd (addCore d tr)
        \<and> lookup (onTextDocumentSaved act d tr) (handle d) = Some (length (heap tr))
        \<and> length (heap (onTextDocumentSaved act d tr)) = Suc (length (heap tr)))
   \<and> (lookup tr (handle d) = None \<and> \<not> isActiveDocument act d \<longrightarrow>
        onTextDocumentSaved act d tr = tr)"
  by (simp add: onTextDocumentSaved_def lookup_addCore)


theorem save_updates_tracked_or_tracks_active_witness:
  "lookup sample_tracker (handle fileA) = Some 0 \<and> 0 < length (heap sample_tracker)
   \<and> state (heap sample_tracker ! 0) = Some ()
   \<and> dirty (heap sample_tracker ! 0) = isDirty fileA
   \<and> state (heap (onTextDocumentSaved None fileA sample_tracker) ! 0) = None
   \<and> resetReason (heap (onTextDocumentSaved None fileA sample_tracker) ! 0) = Some SaveForced
   \<and> length (heap (onTextDocumentSaved None fileA sample_tracker)) = 1
   \<and> lookup (new_DocumentTracker 5000 :: unit DocumentTracker) (handle fileA) = None
   \<and> isActiveDocument (Some editorA) fileA
   \<and> lookup (onTextDocumentSaved (Some editorA) fileA (new_DocumentTracker 5000 :: unit DocumentTracker))
        (handle fileA) = Some 0
   \<and> \<not> isActiveDocument None fileA
   \<and> onTextDocumentSaved None fileA (new_DocumentTracker 5000 :: unit DocumentTracker)
        = new_DocumentTracker 5000"
proof -
  have t: "lookup sample_tracker (handle fileA) = Some 0" "0 < length (heap sample_tracker)"
    "state (heap sample_tracker ! 0) = Some ()" "dirty (heap sample_tracker ! 0) = isDirty fileA"
    "length (heap sample_tracker) = 1"
    by (simp_all add: sample_tracker_simp lookup_def)
  have n: "lookup (new_DocumentTracker 5000 :: unit DocumentTracker) (handle fileA) = None"
    "length (heap (new_DocumentTracker 5000 :: unit DocumentTracker)) = 0"
    by (simp_all add: new_DocumentTracker_simp lookup_def)
  have a: "isActiveDocument (Some editorA) fileA" "\<not> isActiveDocument None fileA"
    by (simp_all add: isActiveDocument_def)
  from save_updates_tracked_or_tracks_active [of sample_tracker fileA 0 None] t
  have 1: "state (heap (onTextDocumentSaved None fileA sample_tracker) ! 0) = None"
    "resetReason (heap (onTextDocumentSaved None fileA sample_tracker) ! 0) = Some SaveForced"
    "length (heap (onTextDocumentSaved None fileA sample_tracker)) = 1"
    by simp_all
  from save_updates_tracked_or_tracks_active
         [of "new_DocumentTracker 5000 :: unit DocumentTracker" fileA 0 "Some editorA"] n a
  have 2: "lookup (onTextDocumentSaved (Some editorA) fileA
                    (new_DocumentTracker 5000 :: unit DocumentTracker)) (handle fileA) = Some 0"
    by metis
  from save_updates_tracked_or_tracks_active
         [of "new_DocumentTracker 5000 :: unit DocumentTracker" fileA 0 None] n a
  have 3: "onTextDocumentSaved None fileA (new_DocumentTracker 5000 :: unit DocumentTracker)
        = new_DocumentTracker 5000"
    by metis
  show ?thesis using t n a 1 2 3 by simp
qed

section \<open>Changed documents\<close>

text \<open>What \<open>fireDocumentDirtyStateChanged\<close> changes.\<close>

lemma fire_fields [simp]:
  "heap (fireDocumentDirtyStateChanged now ev tr) = heap tr"
  "documentMap (fireDocumentDirtyStateChanged now ev tr) = documentMap tr"
  "fired (fireDocumentDirtyStateChanged now ev tr) = fired tr"
  "dirtyIdleTriggerDelay (fireDocumentDirtyStateChanged now ev tr) = dirtyIdleTriggerDelay tr"
  "subscribed (fireDocumentDirtyStateChanged now ev tr) = subscribed tr"
  "commandContext (fireDocumentDirtyStateChanged now ev tr) = commandContext tr"
  "detachedIdleDebounces (fireDocumentDirtyStateChanged now ev tr) = detachedIdleDebounces tr"
  "awaiting (fireDocumentDirtyStateChanged now ev tr) = awaiting tr"
  by (simp_all add: fireDocumentDirtyStateChanged_def Let_def)

lemma fire_dirty:
  "ds_dirty ev \<Longrightarrow>
   immediates (fireDocumentDirtyStateChanged now ev tr) = immediates tr @ [ev]
   \<and> dirtyStateChangedDebounced (fireDocumentDirtyStateChanged now ev tr)
       = dirtyStateChangedDebounced tr"
  by (simp add: fireDocumentDirtyStateChanged_def Let_def)

lemma fire_clean:
  "\<not> ds_dirty ev \<Longrightarrow>
   immediates (fireDocumentDirtyStateChanged now ev tr) = immediates tr
   \<and> dirtyIdleTriggeredDebounced (fireDocumentDirtyStateChanged now ev tr)
       = dirtyIdleTriggeredDebounced tr
   \<and> (\<exists>deb. dirtyStateChangedDebounced (fireDocumentDirtyStateChanged now ev tr) = Some deb
          \<and> pendingCall deb = Some (now + wait deb, ev))"
  by (simp add: fireDocumentDirtyStateChanged_def Let_def invoke_def debounce_def
      split: option.splits)

text \<open>The handler on a local file, with the entry it works on named.\<close>

lemma onTextDocumentChanged_file:
  assumes "scheme (uri (e_document e)) = DocumentSchemes_File"
    and "(case lookup tr (handle (e_document e)) of
            Some a \<Rightarrow> (a, tr) | None \<Rightarrow> addCore (e_document e) tr) = (a, tr1)"
  shows "onTextDocumentChanged now act e tr =
     (let tr2 = on_doc a (reset Document) tr1;
          dty = isDirty (e_document e);
          tr3 = (case dirtyIdleTriggeredDebounced tr2 of
                   None \<Rightarrow> tr2
                 | Some deb \<Rightarrow>
                     if dty
                     then tr2 \<lparr> dirtyIdleTriggeredDebounced :=
                                  Some (invoke now \<lparr> di_editor = act, di_document = a \<rparr> deb) \<rparr>
                     else tr2 \<lparr> dirtyIdleTriggeredDebounced := Some (cancel deb) \<rparr>)
      in if \<not> forceDirtyStateChangeOnNextDocumentChange (heap tr3 ! a) \<and> dirty (heap tr3 ! a) = dty
         then tr3
         else
           (let tr4 = on_doc a (\<lambda>td. (resetForceDirtyStateChangeOnNextDocumentChange td)
                                        \<lparr> dirty := dty \<rparr>) tr3
            in case act of
                 None \<Rightarrow> tr4
               | Some ed \<Rightarrow>
                   if \<not> same_document (editor_document ed) (e_document e) then tr4
                   else fireDocumentDirtyStateChanged now
                          \<lparr> ds_editor = ed, ds_document = a, ds_dirty = dirty (heap tr4 ! a) \<rparr> tr4))"
  unfolding onTextDocumentChanged_def using assms by (simp add: Let_def)

lemma entry_fields:
  assumes "(case lookup tr (handle d) of Some a \<Rightarrow> (a, tr) | None \<Rightarrow> addCore d tr) = (a, tr1)"
  shows "immediates tr1 = immediates tr" "fired tr1 = fired tr"
    "dirtyStateChangedDebounced tr1 = dirtyStateChangedDebounced tr"
    "dirtyIdleTriggeredDebounced tr1 = dirtyIdleTriggeredDebounced tr"
    "dirtyIdleTriggerDelay tr1 = dirtyIdleTriggerDelay tr"
    "detachedIdleDebounces tr1 = detachedIdleDebounces tr"
    "awaiting tr1 = awaiting tr"
  using assms by (auto split: option.splits simp: addCore_simp)


text \<open>
  The two states a change event on a local file can end in, before anything is
  dispatched: \<open>tr3\<close>, after the reset and the idle block, and \<open>tr4\<close>, after the flags
  have been written as well.
\<close>

lemma change_event_steps:
  fixes tr :: "'T DocumentTracker"
  assumes local_file: "scheme (uri (e_document e)) = DocumentSchemes_File"
    and entry: "(case lookup tr (handle (e_document e)) of
                   Some a \<Rightarrow> (a, tr) | None \<Rightarrow> addCore (e_document e) tr) = (a, tr1)"
    and stored: "a < length (heap tr1)"
  obtains tr3 tr4 where
    "onTextDocumentChanged now act e tr =
       (if \<not> forceDirtyStateChangeOnNextDocumentChange (heap tr1 ! a)
           \<and> dirty (heap tr1 ! a) = isDirty (e_document e)
        then tr3
        else (case act of
                None \<Rightarrow> tr4
              | Some ed \<Rightarrow>
                  if \<not> same_document (editor_document ed) (e_document e) then tr4
                  else fireDocumentDirtyStateChanged now
                         \<lparr> ds_editor = ed, ds_document = a, ds_dirty = isDirty (e_document e) \<rparr>
                         tr4))"
    and "immediates tr3 = immediates tr \<and> fired tr3 = fired tr
         \<and> dirtyStateChangedDebounced tr3 = dirtyStateChangedDebounced tr
         \<and> dirty (heap tr3 ! a) = dirty (heap tr1 ! a)
         \<and> forceDirtyStateChangeOnNextDocumentChange (heap tr3 ! a)
             = forceDirtyStateChangeOnNextDocumentChange (heap tr1 ! a)"
    and "immediates tr4 = immediates tr \<and> fired tr4 = fired tr
         \<and> dirtyStateChangedDebounced tr4 = dirtyStateChangedDebounced tr
         \<and> dirty (heap tr4 ! a) = isDirty (e_document e)
         \<and> \<not> forceDirtyStateChangeOnNextDocumentChange (heap tr4 ! a)"
proof -
  define dty where "dty = isDirty (e_document e)"
  define tr2 where "tr2 = on_doc a (reset Document) tr1"
  define tr3 where "tr3 = (case dirtyIdleTriggeredDebounced tr2 of
                   None \<Rightarrow> tr2
                 | Some deb \<Rightarrow>
                     if dty
                     then tr2 \<lparr> dirtyIdleTriggeredDebounced :=
                                  Some (invoke now \<lparr> di_editor = act, di_document = a \<rparr> deb) \<rparr>
                     else tr2 \<lparr> dirtyIdleTriggeredDebounced := Some (cancel deb) \<rparr>)"
  define tr4 where "tr4 = on_doc a (\<lambda>td. (resetForceDirtyStateChangeOnNextDocumentChange td)
                                        \<lparr> dirty := dty \<rparr>) tr3"
  have res: "onTextDocumentChanged now act e tr =
     (if \<not> forceDirtyStateChangeOnNextDocumentChange (heap tr3 ! a) \<and> dirty (heap tr3 ! a) = dty
      then tr3
      else (case act of
              None \<Rightarrow> tr4
            | Some ed \<Rightarrow>
                if \<not> same_document (editor_document ed) (e_document e) then tr4
                else fireDocumentDirtyStateChanged now
                       \<lparr> ds_editor = ed, ds_document = a, ds_dirty = dirty (heap tr4 ! a) \<rparr> tr4))"
    unfolding onTextDocumentChanged_file [OF local_file entry] tr4_def tr3_def tr2_def dty_def
    by (simp only: Let_def)
  have f3: "heap tr3 = (heap tr1)[a := reset Document (heap tr1 ! a)]"
    "immediates tr3 = immediates tr" "fired tr3 = fired tr"
    "dirtyStateChangedDebounced tr3 = dirtyStateChangedDebounced tr"
    unfolding tr3_def tr2_def using entry_fields [OF entry]
    by (simp_all split: option.splits)
  have d3: "dirty (heap tr3 ! a) = dirty (heap tr1 ! a)"
    "forceDirtyStateChangeOnNextDocumentChange (heap tr3 ! a)
       = forceDirtyStateChangeOnNextDocumentChange (heap tr1 ! a)"
    using stored by (simp_all add: f3)
  have f4: "immediates tr4 = immediates tr" "fired tr4 = fired tr"
    "dirtyStateChangedDebounced tr4 = dirtyStateChangedDebounced tr"
    "dirty (heap tr4 ! a) = dty"
    "\<not> forceDirtyStateChangeOnNextDocumentChange (heap tr4 ! a)"
    unfolding tr4_def using stored
    by (simp_all add: f3 resetForceDirtyStateChangeOnNextDocumentChange_def)
  have "onTextDocumentChanged now act e tr =
       (if \<not> forceDirtyStateChangeOnNextDocumentChange (heap tr1 ! a)
           \<and> dirty (heap tr1 ! a) = isDirty (e_document e)
        then tr3
        else (case act of
                None \<Rightarrow> tr4
              | Some ed \<Rightarrow>
                  if \<not> same_document (editor_document ed) (e_document e) then tr4
                  else fireDocumentDirtyStateChanged now
                         \<lparr> ds_editor = ed, ds_document = a, ds_dirty = isDirty (e_document e) \<rparr>
                         tr4))"
    unfolding res by (auto simp add: d3 f4 dty_def split: option.splits)
  then show ?thesis using that f3(2-4) d3 f4 by (simp add: dty_def)
qed


text \<open>The first change of a dirty buffer whose stored flag is still false.\<close>

lemma change_event_first_dirty:
  fixes tr :: "'T DocumentTracker"
  assumes local_file: "scheme (uri (e_document e)) = DocumentSchemes_File"
    and entry: "(case lookup tr (handle (e_document e)) of
                   Some a \<Rightarrow> (a, tr) | None \<Rightarrow> addCore (e_document e) tr) = (a, tr1)"
    and stored: "a < length (heap tr1)"
    and initial: "\<not> dirty (heap tr1 ! a)" and buffer_dirty: "isDirty (e_document e)"
  shows "dirty (heap (onTextDocumentChanged now act e tr) ! a)"
    and "\<not> forceDirtyStateChangeOnNextDocumentChange (heap (onTextDocumentChanged now act e tr) ! a)"
    and "act = Some ed \<Longrightarrow> same_document (editor_document ed) (e_document e) \<Longrightarrow>
           immediates (onTextDocumentChanged now act e tr)
             = immediates tr @ [\<lparr> ds_editor = ed, ds_document = a, ds_dirty = True \<rparr>]"
proof -
  from change_event_steps [OF local_file entry stored, of now act] obtain tr3 tr4 where
    r: "onTextDocumentChanged now act e tr =
       (if \<not> forceDirtyStateChangeOnNextDocumentChange (heap tr1 ! a)
           \<and> dirty (heap tr1 ! a) = isDirty (e_document e)
        then tr3
        else (case act of
                None \<Rightarrow> tr4
              | Some ed \<Rightarrow>
                  if \<not> same_document (editor_document ed) (e_document e) then tr4
                  else fireDocumentDirtyStateChanged now
                         \<lparr> ds_editor = ed, ds_document = a, ds_dirty = isDirty (e_document e) \<rparr>
                         tr4))"
    and f4: "immediates tr4 = immediates tr \<and> fired tr4 = fired tr
         \<and> dirtyStateChangedDebounced tr4 = dirtyStateChangedDebounced tr
         \<and> dirty (heap tr4 ! a) = isDirty (e_document e)
         \<and> \<not> forceDirtyStateChangeOnNextDocumentChange (heap tr4 ! a)"
    by blast
  show "dirty (heap (onTextDocumentChanged now act e tr) ! a)"
    "\<not> forceDirtyStateChangeOnNextDocumentChange (heap (onTextDocumentChanged now act e tr) ! a)"
    unfolding r using initial buffer_dirty f4 by (simp_all split: option.splits)
  show "immediates (onTextDocumentChanged now act e tr)
             = immediates tr @ [\<lparr> ds_editor = ed, ds_document = a, ds_dirty = True \<rparr>]"
    if "act = Some ed" "same_document (editor_document ed) (e_document e)"
    unfolding r using initial buffer_dirty f4 that
      fire_dirty [of "\<lparr> ds_editor = ed, ds_document = a, ds_dirty = True \<rparr>" now tr4]
    by simp
qed

text \<open>
  C3. A text-document-changed event on a local file works on the tracked document of the
  buffer (found under the buffer, or created). If that tracked document carries no force
  flag and its stored dirty flag equals the buffer's, the handler queues no immediate,
  leaves the clean debounce alone, fires nothing and leaves the stored dirty flag and the
  force flag as they are. Otherwise the force flag is cleared and the stored dirty flag
  becomes the buffer's; then, if the changed document is the active editor's document,
  the dirty-state event for that editor is dispatched (queued as an immediate when dirty,
  handed to the clean debounce when clean), and if it is not, nothing is dispatched.
  The entry's address is in the store, as it is in every history (\<open>entry_stored\<close>,
  \<open>history_inv\<close> below).
\<close>

theorem change_event_dirty_state:
  fixes tr :: "'T DocumentTracker"
  assumes local_file: "scheme (uri (e_document e)) = DocumentSchemes_File"
    and entry: "(case lookup tr (handle (e_document e)) of
                   Some a \<Rightarrow> (a, tr) | None \<Rightarrow> addCore (e_document e) tr) = (a, tr1)"
    and stored: "a < length (heap tr1)"
  shows
  "(\<not> forceDirtyStateChangeOnNextDocumentChange (heap tr1 ! a)
      \<and> dirty (heap tr1 ! a) = isDirty (e_document e) \<longrightarrow>
        immediates (onTextDocumentChanged now act e tr) = immediates tr
        \<and> dirtyStateChangedDebounced (onTextDocumentChanged now act e tr)
            = dirtyStateChangedDebounced tr
        \<and> fired (onTextDocumentChanged now act e tr) = fired tr
        \<and> dirty (heap (onTextDocumentChanged now act e tr) ! a) = dirty (heap tr1 ! a)
        \<and> \<not> forceDirtyStateChangeOnNextDocumentChange (heap (onTextDocumentChanged now act e tr) ! a))
   \<and> (forceDirtyStateChangeOnNextDocumentChange (heap tr1 ! a)
        \<or> dirty (heap tr1 ! a) \<noteq> isDirty (e_document e) \<longrightarrow>
        \<not> forceDirtyStateChangeOnNextDocumentChange (heap (onTextDocumentChanged now act e tr) ! a)
        \<and> dirty (heap (onTextDocumentChanged now act e tr) ! a) = isDirty (e_document e)
        \<and> fired (onTextDocumentChanged now act e tr) = fired tr
        \<and> (\<forall>ed. act = Some ed \<and> same_document (editor_document ed) (e_document e) \<longrightarrow>
              (isDirty (e_document e) \<longrightarrow>
                 immediates (onTextDocumentChanged now act e tr)
                   = immediates tr @ [\<lparr> ds_editor = ed, ds_document = a, ds_dirty = True \<rparr>]
                 \<and> dirtyStateChangedDebounced (onTextDocumentChanged now act e tr)
                     = dirtyStateChangedDebounced tr)
              \<and> (\<not> isDirty (e_document e) \<longrightarrow>
                 immediates (onTextDocumentChanged now act e tr) = immediates tr
                 \<and> (\<exists>deb. dirtyStateChangedDebounced (onTextDocumentChanged now act e tr) = Some deb
                        \<and> pendingCall deb
                            = Some (now + wait deb,
                                    \<lparr> ds_editor = ed, ds_document = a, ds_dirty = False \<rparr>))))
        \<and> (\<not> isActiveDocument act (e_document e) \<longrightarrow>
              immediates (onTextDocumentChanged now act e tr) = immediates tr
              \<and> dirtyStateChangedDebounced (onTextDocumentChanged now act e tr)
                  = dirtyStateChangedDebounced tr))"
proof -
  let ?tr' = "onTextDocumentChanged now act e tr"
  let ?dty = "isDirty (e_document e)"
  from change_event_steps [OF local_file entry stored, of now act] obtain tr3 tr4 where
    res: "?tr' =
       (if \<not> forceDirtyStateChangeOnNextDocumentChange (heap tr1 ! a) \<and> dirty (heap tr1 ! a) = ?dty
        then tr3
        else (case act of
                None \<Rightarrow> tr4
              | Some ed \<Rightarrow>
                  if \<not> same_document (editor_document ed) (e_document e) then tr4
                  else fireDocumentDirtyStateChanged now
                         \<lparr> ds_editor = ed, ds_document = a, ds_dirty = ?dty \<rparr> tr4))"
    and f3: "immediates tr3 = immediates tr \<and> fired tr3 = fired tr
         \<and> dirtyStateChangedDebounced tr3 = dirtyStateChangedDebounced tr
         \<and> dirty (heap tr3 ! a) = dirty (heap tr1 ! a)
         \<and> forceDirtyStateChangeOnNextDocumentChange (heap tr3 ! a)
             = forceDirtyStateChangeOnNextDocumentChange (heap tr1 ! a)"
    and f4: "immediates tr4 = immediates tr \<and> fired tr4 = fired tr
         \<and> dirtyStateChangedDebounced tr4 = dirtyStateChangedDebounced tr
         \<and> dirty (heap tr4 ! a) = ?dty
         \<and> \<not> forceDirtyStateChangeOnNextDocumentChange (heap tr4 ! a)"
    by blast
  show ?thesis
  proof (cases "\<not> forceDirtyStateChangeOnNextDocumentChange (heap tr1 ! a)
                \<and> dirty (heap tr1 ! a) = ?dty")
    case True
    then have "?tr' = tr3" unfolding res by simp
    then show ?thesis using True f3 by simp
  next
    case False
    then have r: "?tr' =
        (case act of
              None \<Rightarrow> tr4
            | Some ed \<Rightarrow>
                if \<not> same_document (editor_document ed) (e_document e) then tr4
                else fireDocumentDirtyStateChanged now
                       \<lparr> ds_editor = ed, ds_document = a, ds_dirty = ?dty \<rparr> tr4)"
      unfolding res by auto
    have common: "\<not> forceDirtyStateChangeOnNextDocumentChange (heap ?tr' ! a)"
      "dirty (heap ?tr' ! a) = ?dty" "fired ?tr' = fired tr"
      unfolding r using f4 by (simp_all split: option.splits)
    have active_dirty: "immediates ?tr'
                   = immediates tr @ [\<lparr> ds_editor = ed, ds_document = a, ds_dirty = True \<rparr>]
                 \<and> dirtyStateChangedDebounced ?tr' = dirtyStateChangedDebounced tr"
      if "act = Some ed" "same_document (editor_document ed) (e_document e)" "?dty" for ed
      unfolding r using that f4
        fire_dirty [of "\<lparr> ds_editor = ed, ds_document = a, ds_dirty = True \<rparr>" now tr4]
      by simp
    have active_clean: "immediates ?tr' = immediates tr
                 \<and> (\<exists>deb. dirtyStateChangedDebounced ?tr' = Some deb
                        \<and> pendingCall deb
                            = Some (now + wait deb,
                                    \<lparr> ds_editor = ed, ds_document = a, ds_dirty = False \<rparr>))"
      if "act = Some ed" "same_document (editor_document ed) (e_document e)" "\<not> ?dty" for ed
      unfolding r using that f4
        fire_clean [of "\<lparr> ds_editor = ed, ds_document = a, ds_dirty = False \<rparr>" now tr4]
      by simp
    have inactive: "immediates ?tr' = immediates tr
              \<and> dirtyStateChangedDebounced ?tr' = dirtyStateChangedDebounced tr"
      if "\<not> isActiveDocument act (e_document e)"
      unfolding r using that f4 by (simp add: isActiveDocument_def split: option.splits)
    show ?thesis
      using False common active_dirty active_clean inactive by blast
  qed
qed

theorem change_event_dirty_state_witness:
  "scheme (uri (e_document fileA_changed)) = DocumentSchemes_File
   \<and> lookup (new_DocumentTracker 5000 :: unit DocumentTracker) (handle fileA) = None
   \<and> dirty (heap (snd (addCore fileA (new_DocumentTracker 5000 :: unit DocumentTracker))) ! 0)
        \<noteq> isDirty fileA
   \<and> immediates edited_tracker = [\<lparr> ds_editor = editorA, ds_document = 0, ds_dirty = True \<rparr>]
   \<and> dirty (heap edited_tracker ! 0)
   \<and> lookup edited_tracker (handle fileA) = Some 0
   \<and> \<not> forceDirtyStateChangeOnNextDocumentChange (heap edited_tracker ! 0)
   \<and> dirty (heap edited_tracker ! 0) = isDirty fileA
   \<and> immediates (onTextDocumentChanged 100 (Some editorA) fileA_changed edited_tracker)
        = immediates edited_tracker
   \<and> fired (onTextDocumentChanged 100 (Some editorA) fileA_changed edited_tracker) = []"
proof -
  let ?new = "new_DocumentTracker 5000 :: unit DocumentTracker"
  have f: "scheme (uri (e_document fileA_changed)) = DocumentSchemes_File"
    by (simp add: DocumentSchemes_File_def)
  have n: "(case lookup ?new (handle (e_document fileA_changed)) of
              Some a \<Rightarrow> (a, ?new) | None \<Rightarrow> addCore (e_document fileA_changed) ?new)
           = (0, snd (addCore fileA ?new))"
    "lookup ?new (handle fileA) = None"
    "0 < length (heap (snd (addCore fileA ?new)))"
    "dirty (heap (snd (addCore fileA ?new)) ! 0) \<noteq> isDirty fileA"
    "immediates ?new = []"
    by (simp_all add: new_DocumentTracker_simp lookup_def addCore_simp new_TrackedDocument_def)
  have s: "same_document (editor_document editorA) (e_document fileA_changed)"
    "isDirty (e_document fileA_changed)"
    by simp_all
  from change_event_dirty_state [OF f n(1) n(3), of 0 "Some editorA"] n(4,5) s
  have 1: "immediates edited_tracker = [\<lparr> ds_editor = editorA, ds_document = 0, ds_dirty = True \<rparr>]"
    "dirty (heap edited_tracker ! 0)"
    unfolding edited_tracker_def by auto
  have t: "(case lookup edited_tracker (handle (e_document fileA_changed)) of
              Some a \<Rightarrow> (a, edited_tracker)
            | None \<Rightarrow> addCore (e_document fileA_changed) edited_tracker)
           = (0, edited_tracker)"
    "lookup edited_tracker (handle fileA) = Some 0"
    "0 < length (heap edited_tracker)"
    "\<not> forceDirtyStateChangeOnNextDocumentChange (heap edited_tracker ! 0)"
    "dirty (heap edited_tracker ! 0) = isDirty fileA"
    "fired edited_tracker = []"
    by (simp_all add: first_edit lookup_def new_TrackedDocument_def)
  from change_event_dirty_state [OF f t(1) t(3), of 100 "Some editorA"] t(4,5,6) s
  have 2: "immediates (onTextDocumentChanged 100 (Some editorA) fileA_changed edited_tracker)
        = immediates edited_tracker"
    "fired (onTextDocumentChanged 100 (Some editorA) fileA_changed edited_tracker) = []"
    by auto
  show ?thesis using f n(2,4) 1 t(2,4,5) 2 by simp
qed

section \<open>The idle countdown and the deferred callbacks\<close>

text \<open>A change event leaves the detached debounces and the suspended callbacks alone.\<close>

lemma change_event_frame:
  fixes tr :: "'T DocumentTracker"
  shows "detachedIdleDebounces (onTextDocumentChanged now act e tr) = detachedIdleDebounces tr"
    and "awaiting (onTextDocumentChanged now act e tr) = awaiting tr"
    and "fired (onTextDocumentChanged now act e tr) = fired tr"
proof -
  have "detachedIdleDebounces (onTextDocumentChanged now act e tr) = detachedIdleDebounces tr
        \<and> awaiting (onTextDocumentChanged now act e tr) = awaiting tr
        \<and> fired (onTextDocumentChanged now act e tr) = fired tr"
  proof (cases "scheme (uri (e_document e)) = DocumentSchemes_File")
    case False
    then show ?thesis by (simp add: onTextDocumentChanged_def)
  next
    case True
    obtain a tr1 where entry: "(case lookup tr (handle (e_document e)) of
                   Some a \<Rightarrow> (a, tr) | None \<Rightarrow> addCore (e_document e) tr) = (a, tr1)"
      by fastforce
    show ?thesis
      unfolding onTextDocumentChanged_file [OF True entry]
      using entry_fields(2,6,7) [OF entry]
      by (simp add: Let_def split: option.splits)
  qed
  then show "detachedIdleDebounces (onTextDocumentChanged now act e tr) = detachedIdleDebounces tr"
    and "awaiting (onTextDocumentChanged now act e tr) = awaiting tr"
    and "fired (onTextDocumentChanged now act e tr) = fired tr"
    by simp_all
qed


lemma map_list_update_same:
  assumes "f x = f (xs ! i)"
  shows "map f (xs[i := x]) = map f xs"
proof (cases "i < length xs")
  case True
  then show ?thesis using assms by (auto simp add: list_eq_iff_nth_eq nth_list_update)
next
  case False
  then have "xs[i := x] = xs" by (simp add: list_update_beyond)
  then show ?thesis by simp
qed

lemma ensureInitialized_Inr:
  "ensureInitialized loads td = Inr td' \<Longrightarrow>
     document td' = document td \<and> key td' = key td \<and> dirty td' = dirty td
     \<and> disposed td' = disposed td"
  by (auto simp add: ensureInitialized_def split: if_splits)

lemma ensureInitialized_succeeds:
  "initialized td \<or> loads (document td) \<Longrightarrow> \<exists>td'. ensureInitialized loads td = Inr td'"
  by (auto simp add: ensureInitialized_def)

lemma initialize_and_fire_documents:
  assumes "\<And>td. document (f td) = document td"
  shows "map document (heap (initialize_and_fire loads a f ev tr)) = map document (heap tr)"
  using assms
  by (auto simp add: initialize_and_fire_def map_list_update_same
      dest: ensureInitialized_Inr split: sum.splits)

lemma map_document_nth:
  "map document h' = map document h \<Longrightarrow> a < length h \<Longrightarrow>
     a < length h' \<and> document (h' ! a) = document (h ! a)"
  by (metis length_map nth_map)

text \<open>The callbacks up to their \<^verbatim>\<open>await\<close> touch no tracked document and fire nothing.\<close>

lemma suspend_fields [simp]:
  "heap (suspend k tr) = heap tr" "fired (suspend k tr) = fired tr"
  "documentMap (suspend k tr) = documentMap tr"
  "dirtyIdleTriggeredDebounced (suspend k tr) = dirtyIdleTriggeredDebounced tr"
  "dirtyIdleTriggerDelay (suspend k tr) = dirtyIdleTriggerDelay tr"
  "dirtyStateChangedDebounced (suspend k tr) = dirtyStateChangedDebounced tr"
  "detachedIdleDebounces (suspend k tr) = detachedIdleDebounces tr"
  "immediates (suspend k tr) = immediates tr"
  "awaiting (suspend k tr) = awaiting tr @ [k]"
  by (simp_all add: suspend_def)

lemma immediate_fields [simp]:
  "heap (dirtyStateChangedImmediate act ev tr) = heap tr"
  "fired (dirtyStateChangedImmediate act ev tr) = fired tr"
  "documentMap (dirtyStateChangedImmediate act ev tr) = documentMap tr"
  "dirtyIdleTriggeredDebounced (dirtyStateChangedImmediate act ev tr) = dirtyIdleTriggeredDebounced tr"
  "dirtyIdleTriggerDelay (dirtyStateChangedImmediate act ev tr) = dirtyIdleTriggerDelay tr"
  by (simp_all add: dirtyStateChangedImmediate_def Let_def split: option.splits)

lemma immediate_awaiting:
  "awaiting (dirtyStateChangedImmediate act ev tr)
     = (if active_is act (ds_editor ev) then awaiting tr @ [DirtyStateAwaited ev] else awaiting tr)"
  by (simp add: dirtyStateChangedImmediate_def Let_def split: option.splits)

lemma fold_immediate_fields [simp]:
  "heap (fold (dirtyStateChangedImmediate act) evs tr) = heap tr"
  "fired (fold (dirtyStateChangedImmediate act) evs tr) = fired tr"
  "documentMap (fold (dirtyStateChangedImmediate act) evs tr) = documentMap tr"
  "dirtyIdleTriggeredDebounced (fold (dirtyStateChangedImmediate act) evs tr)
     = dirtyIdleTriggeredDebounced tr"
  "dirtyIdleTriggerDelay (fold (dirtyStateChangedImmediate act) evs tr) = dirtyIdleTriggerDelay tr"
  by (induction evs arbitrary: tr) simp_all

lemma runImmediates_fields [simp]:
  "heap (runImmediates act tr) = heap tr" "fired (runImmediates act tr) = fired tr"
  "documentMap (runImmediates act tr) = documentMap tr"
  "dirtyIdleTriggeredDebounced (runImmediates act tr) = dirtyIdleTriggeredDebounced tr"
  "dirtyIdleTriggerDelay (runImmediates act tr) = dirtyIdleTriggerDelay tr"
  by (simp_all add: runImmediates_def)

text \<open>The immediate queued last suspends last.\<close>

lemma runImmediates_last:
  assumes "immediates tr = evs @ [ev]" "active_is act (ds_editor ev)"
  shows "\<exists>ks. awaiting (runImmediates act tr) = ks @ [DirtyStateAwaited ev]"
  using assms by (simp add: runImmediates_def immediate_awaiting)

text \<open>What a continuation does when it resumes.\<close>

lemma continuationResumed_at:
  assumes "awaiting tr = ks @ k # ks'"
  shows "continuationResumed loads (length ks) tr
           = resumed loads k (tr \<lparr> awaiting := ks @ ks' \<rparr>)"
  using assms by (simp add: continuationResumed_def nth_append)

lemma initialize_and_fire_fires:
  assumes "a < length (heap tr)" "loads (document (heap tr ! a))"
  shows "fired (initialize_and_fire loads a f ev tr) = fired tr @ [ev]"
    and "\<exists>td. heap (initialize_and_fire loads a f ev tr) ! a = f td"
proof -
  obtain td' where "ensureInitialized loads (heap tr ! a) = Inr td'"
    using ensureInitialized_succeeds assms(2) by blast
  then show "fired (initialize_and_fire loads a f ev tr) = fired tr @ [ev]"
    and "\<exists>td. heap (initialize_and_fire loads a f ev tr) ! a = f td"
    using assms(1) by (auto simp add: initialize_and_fire_def)
qed

lemma dirty_state_resumed:
  assumes "awaiting tr = ks @ DirtyStateAwaited ev # ks'"
    and "ds_document ev < length (heap tr)" "loads (document (heap tr ! ds_document ev))"
  shows "fired (continuationResumed loads (length ks) tr) = fired tr @ [DidChangeDirtyState ev]"
  unfolding continuationResumed_at [OF assms(1)]
  using initialize_and_fire_fires(1)
          [of "ds_document ev" "tr \<lparr> awaiting := ks @ ks' \<rparr>" loads "\<lambda>td. td" "DidChangeDirtyState ev"]
    assms(2,3)
  by simp





text \<open>
  The timer of a detached debounce: its callback is suspended like any other, unless
  the debounce the tracker holds now has an invocation pending.
\<close>

lemma detachedIdleTimerElapsed_due:
  assumes "i < length (detachedIdleDebounces tr)"
    and "pendingCall (detachedIdleDebounces tr ! i) = Some (t0, p)" "t0 \<le> t"
    and "\<forall>deb. dirtyIdleTriggeredDebounced tr = Some deb \<longrightarrow> pendingCall deb = None"
  shows "detachedIdleTimerElapsed i t tr
           = tr \<lparr> detachedIdleDebounces :=
                    (detachedIdleDebounces tr)[i := cancel (detachedIdleDebounces tr ! i)],
                  awaiting := awaiting tr @ [DirtyIdleAwaited p] \<rparr>"
  using assms
  by (auto simp add: detachedIdleTimerElapsed_def due_def dirtyIdleTriggered_def pending_def
      suspend_def split: option.splits)

section \<open>Buffers of tracked documents\<close>

lemma on_doc_documents:
  assumes "\<And>td. document (f td) = document td"
  shows "map document (heap (on_doc a f tr)) = map document (heap tr)"
  by (simp add: map_list_update_same assms)

lemma change_documents:
  fixes tr :: "'T DocumentTracker"
  assumes local_file: "scheme (uri (e_document e)) = DocumentSchemes_File"
    and entry: "(case lookup tr (handle (e_document e)) of
                   Some a \<Rightarrow> (a, tr) | None \<Rightarrow> addCore (e_document e) tr) = (a, tr1)"
  shows "map document (heap (onTextDocumentChanged now act e tr)) = map document (heap tr1)"
proof -
  define tr2 where "tr2 = on_doc a (reset Document) tr1"
  define tr3 where "tr3 = (case dirtyIdleTriggeredDebounced tr2 of
                   None \<Rightarrow> tr2
                 | Some deb \<Rightarrow>
                     if isDirty (e_document e)
                     then tr2 \<lparr> dirtyIdleTriggeredDebounced :=
                                  Some (invoke now \<lparr> di_editor = act, di_document = a \<rparr> deb) \<rparr>
                     else tr2 \<lparr> dirtyIdleTriggeredDebounced := Some (cancel deb) \<rparr>)"
  define tr4 where "tr4 = on_doc a (\<lambda>td. (resetForceDirtyStateChangeOnNextDocumentChange td)
                                        \<lparr> dirty := isDirty (e_document e) \<rparr>) tr3"
  have 2: "map document (heap tr2) = map document (heap tr1)"
    unfolding tr2_def by (rule on_doc_documents) simp
  have 3: "heap tr3 = heap tr2"
    unfolding tr3_def by (simp split: option.splits)
  have 4: "map document (heap tr4) = map document (heap tr3)"
    unfolding tr4_def
    by (rule on_doc_documents) (simp add: resetForceDirtyStateChangeOnNextDocumentChange_def)
  have "heap (onTextDocumentChanged now act e tr) = heap tr3
        \<or> heap (onTextDocumentChanged now act e tr) = heap tr4"
    unfolding onTextDocumentChanged_file [OF local_file entry] tr4_def tr3_def tr2_def
    by (simp add: Let_def split: option.splits)
  then show ?thesis using 2 3 4 by auto
qed

section \<open>Edits and the idle countdown\<close>



subsection \<open>The sample histories\<close>






section \<open>The cache is well formed in every history\<close>

lemma cache_ok_iff:
  "cache_ok tr \<longleftrightarrow>
     distinct (map fst (documentMap tr)) \<and> (\<forall>k a. lookup tr k = Some a \<longrightarrow> entry_ok tr k a)"
  unfolding cache_ok_def lookup_def list_all_iff by (auto dest: map_of_SomeD)

lemma cache_okD:
  "cache_ok tr \<Longrightarrow> lookup tr k = Some a \<Longrightarrow> entry_ok tr k a"
  by (simp add: cache_ok_iff)

lemma cache_ok_store_ok: "cache_ok tr \<Longrightarrow> store_ok tr"
  unfolding cache_ok_def store_ok_def list_all_iff entry_ok_def by auto

lemma entry_ok_handle:
  "entry_ok tr (ByDocument i u) a \<Longrightarrow>
     a < length (heap tr) \<and> \<not> disposed (heap tr ! a)
     \<and> handle (document (heap tr ! a)) = ByDocument i u
     \<and> key (heap tr ! a) = toStateKey (AsUri u)"
  by (simp add: entry_ok_def)

lemma entry_ok_key:
  "entry_ok tr (ByKey s) a \<Longrightarrow>
     a < length (heap tr) \<and> \<not> disposed (heap tr ! a)
     \<and> key (heap tr ! a) = s \<and> lookup tr (handle (document (heap tr ! a))) = Some a"
  by (simp add: entry_ok_def)

text \<open>An entry is reachable under its buffer, and under no key but its buffer and its key.\<close>

lemma cache_ok_reachable:
  assumes "cache_ok tr" "lookup tr k = Some a"
  shows "lookup tr (handle (document (heap tr ! a))) = Some a"
    and "k = handle (document (heap tr ! a)) \<or> k = ByKey (key (heap tr ! a))"
    and "key (heap tr ! a) = toStateKey (AsUri (uri (document (heap tr ! a))))"
proof -
  note e = cache_okD [OF assms]
  show 1: "lookup tr (handle (document (heap tr ! a))) = Some a"
    using e assms(2) by (cases k) (auto simp add: entry_ok_def)
  show "k = handle (document (heap tr ! a)) \<or> k = ByKey (key (heap tr ! a))"
    using e by (cases k) (auto simp add: entry_ok_def)
  obtain i u where h: "handle (document (heap tr ! a)) = ByDocument i u" "u = uri (document (heap tr ! a))"
    by (simp add: handle_def)
  from cache_okD [OF assms(1) 1] h show "key (heap tr ! a) = toStateKey (AsUri (uri (document (heap tr ! a))))"
    by (simp add: entry_ok_def)
qed

text \<open>Method calls that keep the buffer, the key and the disposed mark keep the cache well formed.\<close>

lemma entry_ok_cong:
  assumes "lookup tr' = lookup tr" "length (heap tr') = length (heap tr)"
    and "\<And>b. b < length (heap tr) \<Longrightarrow>
           document (heap tr' ! b) = document (heap tr ! b) \<and> key (heap tr' ! b) = key (heap tr ! b)
           \<and> disposed (heap tr' ! b) = disposed (heap tr ! b)"
  shows "entry_ok tr' k a = entry_ok tr k a"
  using assms by (auto simp add: entry_ok_def split: mapkey.splits)

lemma cache_ok_cong:
  assumes "documentMap tr' = documentMap tr" "length (heap tr') = length (heap tr)"
    and "\<And>b. b < length (heap tr) \<Longrightarrow>
           document (heap tr' ! b) = document (heap tr ! b) \<and> key (heap tr' ! b) = key (heap tr ! b)
           \<and> disposed (heap tr' ! b) = disposed (heap tr ! b)"
  shows "cache_ok tr' = cache_ok tr"
proof -
  have "lookup tr' = lookup tr" using assms(1) by (simp add: lookup_def fun_eq_iff)
  from entry_ok_cong [OF this assms(2,3)] show ?thesis
    by (simp add: cache_ok_iff assms(1) \<open>lookup tr' = lookup tr\<close>)
qed


lemma cache_ok_fields [simp]:
  "cache_ok (tr \<lparr> dirtyIdleTriggeredDebounced := x1 \<rparr>) = cache_ok tr"
  "cache_ok (tr \<lparr> dirtyStateChangedDebounced := x2 \<rparr>) = cache_ok tr"
  "cache_ok (tr \<lparr> immediates := x3 \<rparr>) = cache_ok tr"
  "cache_ok (tr \<lparr> fired := x4 \<rparr>) = cache_ok tr"
  "cache_ok (tr \<lparr> commandContext := x5 \<rparr>) = cache_ok tr"
  "cache_ok (tr \<lparr> dirtyIdleTriggerDelay := x6 \<rparr>) = cache_ok tr"
  "cache_ok (tr \<lparr> subscribed := x7 \<rparr>) = cache_ok tr"
  "cache_ok (tr \<lparr> detachedIdleDebounces := x8 \<rparr>) = cache_ok tr"
  "cache_ok (tr \<lparr> awaiting := x9 \<rparr>) = cache_ok tr"
  "cache_ok (suspend k tr) = cache_ok tr"
  by (rule cache_ok_cong; simp)+

lemma nth_update_field:
  "b < length xs \<Longrightarrow> f x = f (xs ! a) \<Longrightarrow> f (xs[a := x] ! b) = f (xs ! b)"
  by (cases "a = b") simp_all

lemma cache_ok_heap_update:
  assumes "document td = document (heap tr ! a)" "key td = key (heap tr ! a)"
    "disposed td = disposed (heap tr ! a)"
  shows "cache_ok (tr \<lparr> heap := (heap tr)[a := td] \<rparr>) = cache_ok tr"
  by (rule cache_ok_cong) (simp_all add: nth_update_field assms)

lemma cache_ok_on_doc:
  assumes "\<And>td. document (f td) = document td \<and> key (f td) = key td \<and> disposed (f td) = disposed td"
  shows "cache_ok (on_doc a f tr) = cache_ok tr"
  unfolding on_doc_def by (rule cache_ok_heap_update) (simp_all add: assms)

lemma cache_ok_fire [simp]: "cache_ok (fireDocumentDirtyStateChanged now ev tr) = cache_ok tr"
  by (rule cache_ok_cong) simp_all

lemma cache_ok_for_each_value:
  assumes "\<And>td. document (f td) = document td \<and> key (f td) = key td \<and> disposed (f td) = disposed td"
  shows "cache_ok (for_each_value f tr) = cache_ok tr"
proof -
  have "cache_ok (fold (\<lambda>a. on_doc a f) as t) = cache_ok t" for as and t :: "'a DocumentTracker"
    by (induction as arbitrary: t) (simp_all add: cache_ok_on_doc assms)
  then show ?thesis by (simp add: for_each_value_def)
qed

lemma cache_ok_initialize_and_fire:
  assumes "\<And>td. document (f td) = document td \<and> key (f td) = key td \<and> disposed (f td) = disposed td"
  shows "cache_ok (initialize_and_fire loads a f ev tr) = cache_ok tr"
proof (cases "ensureInitialized loads (heap tr ! a)")
  case (Inl err)
  then show ?thesis by (simp add: initialize_and_fire_def)
next
  case (Inr td)
  from ensureInitialized_Inr [OF this] assms
  have "cache_ok (tr \<lparr> heap := (heap tr)[a := f td] \<rparr>) = cache_ok tr"
    by (intro cache_ok_heap_update) simp_all
  then show ?thesis using Inr
    by (simp add: initialize_and_fire_def cache_ok_cong [of "tr \<lparr> heap := (heap tr)[a := f td], fired := fired tr @ [ev] \<rparr>" "tr \<lparr> heap := (heap tr)[a := f td] \<rparr>"])
qed

lemma cache_ok_addCore:
  assumes "cache_ok tr"
  shows "cache_ok (snd (addCore d tr))"
proof -
  let ?n = "length (heap tr)"
  let ?k = "toStateKey (AsUri (uri d))"
  let ?tr' = "snd (addCore d tr)"
  have dist: "distinct (map fst (documentMap ?tr'))"
    using assms by (simp add: cache_ok_iff distinct_update)
  have ok: "entry_ok ?tr' k0 a" if l: "lookup ?tr' k0 = Some a" for k0 a
  proof (cases "k0 = ByKey ?k \<or> k0 = handle d")
    case True
    then have "a = ?n" using l by (simp add: lookup_addCore)
    with True show ?thesis
      by (auto simp add: entry_ok_def lookup_addCore new_TrackedDocument_def handle_def)
  next
    case False
    then have old: "lookup tr k0 = Some a" using l by (simp add: lookup_addCore)
    note e = cache_okD [OF assms old]
    then have a: "a < ?n" by (simp add: entry_ok_def)
    then have same: "heap ?tr' ! a = heap tr ! a" by (simp add: nth_append)
    show ?thesis
    proof (cases k0)
      case (ByDocument i u)
      then show ?thesis using e a same by (simp add: entry_ok_def)
    next
      case (ByKey s)
      then have s: "s \<noteq> ?k" using False by simp
      from e ByKey have ks: "key (heap tr ! a) = s" by (simp add: entry_ok_def)
      from cache_ok_reachable(3) [OF assms old] ks s
      have "uri (document (heap tr ! a)) \<noteq> uri d" by auto
      then have "handle (document (heap tr ! a)) \<noteq> handle d" by (simp add: handle_def)
      moreover have "handle (document (heap tr ! a)) \<noteq> ByKey ?k" by (simp add: handle_def)
      ultimately have "lookup ?tr' (handle (document (heap tr ! a))) = Some a"
        using cache_ok_reachable(1) [OF assms old] by (simp add: lookup_addCore)
      then show ?thesis using ByKey e a same by (simp add: entry_ok_def)
    qed
  qed
  show ?thesis using dist ok by (simp add: cache_ok_iff)
qed


lemma lookup_closed:
  assumes "lookup tr (handle d) = Some a0"
  shows "lookup (onTextDocumentClosed d tr) k =
           (if k = handle d \<or> k = ByKey (key ((heap tr)[a0 := TrackedDocument_dispose (heap tr ! a0)] ! a0))
            then None else lookup tr k)"
  using assms by (auto simp add: onTextDocumentClosed_def lookup_def Let_def delete_conv')

lemma closed_fields:
  assumes "lookup tr (handle d) = Some a0"
  shows "heap (onTextDocumentClosed d tr) = (heap tr)[a0 := TrackedDocument_dispose (heap tr ! a0)]"
    "documentMap (onTextDocumentClosed d tr) =
       AList.delete (ByKey (key ((heap tr)[a0 := TrackedDocument_dispose (heap tr ! a0)] ! a0)))
         (AList.delete (handle d) (documentMap tr))"
    "dirtyIdleTriggeredDebounced (onTextDocumentClosed d tr) = dirtyIdleTriggeredDebounced tr"
    "dirtyIdleTriggerDelay (onTextDocumentClosed d tr) = dirtyIdleTriggerDelay tr"
  using assms by (simp_all add: onTextDocumentClosed_def Let_def)

lemma cache_ok_closed:
  assumes "cache_ok tr"
  shows "cache_ok (onTextDocumentClosed d tr)"
proof (cases "lookup tr (handle d)")
  case None
  then show ?thesis using assms by (simp add: onTextDocumentClosed_def)
next
  case (Some a0)
  let ?tr' = "onTextDocumentClosed d tr"
  note e0 = cache_okD [OF assms Some]
  then have a0: "a0 < length (heap tr)" by (simp add: entry_ok_def handle_def)
  then have k0: "key ((heap tr)[a0 := TrackedDocument_dispose (heap tr ! a0)] ! a0) = key (heap tr ! a0)"
    by (simp add: TrackedDocument_dispose_def)
  have h0: "handle (document (heap tr ! a0)) = handle d"
    using e0 by (simp add: entry_ok_def handle_def)
  have dist: "distinct (map fst (documentMap ?tr'))"
    using assms by (simp add: closed_fields [OF Some] cache_ok_iff distinct_delete)
  have ok: "entry_ok ?tr' k a" if l: "lookup ?tr' k = Some a" for k a
  proof -
    from l have k: "k \<noteq> handle d" "k \<noteq> ByKey (key (heap tr ! a0))" and old: "lookup tr k = Some a"
      by (simp_all add: lookup_closed [OF Some] k0 split: if_splits)
    note e = cache_okD [OF assms old]
    have ne: "a \<noteq> a0"
      using cache_ok_reachable(2) [OF assms old] k h0 by auto
    have a: "a < length (heap tr)" using e by (simp add: entry_ok_def)
    have same: "heap ?tr' ! a = heap tr ! a"
      using ne by (simp add: closed_fields [OF Some])
    have "handle (document (heap tr ! a)) \<noteq> handle d"
      using cache_ok_reachable(1) [OF assms old] Some ne by auto
    moreover have "handle (document (heap tr ! a)) \<noteq> ByKey (key (heap tr ! a0))"
      by (simp add: handle_def)
    ultimately have "lookup ?tr' (handle (document (heap tr ! a))) = Some a"
      using cache_ok_reachable(1) [OF assms old] by (simp add: lookup_closed [OF Some] k0)
    then show ?thesis
      using e a same by (cases k) (simp_all add: entry_ok_def closed_fields(1) [OF Some])
  qed
  show ?thesis using dist ok by (simp add: cache_ok_iff)
qed

text \<open>After the close of a tracked buffer its tracked document is disposed and unreachable.\<close>

lemma closed_unreachable:
  assumes "cache_ok tr" "lookup tr (handle d) = Some a0"
  shows "disposed (heap (onTextDocumentClosed d tr) ! a0)"
    and "lookup (onTextDocumentClosed d tr) k \<noteq> Some a0"
    and "lookup (onTextDocumentClosed d tr) (handle d) = None"
    and "lookup (onTextDocumentClosed d tr) (ByKey (toStateKey (AsUri (uri d)))) = None"
proof -
  note e0 = cache_okD [OF assms]
  then have a0: "a0 < length (heap tr)" by (simp add: entry_ok_def handle_def)
  then have k0: "key ((heap tr)[a0 := TrackedDocument_dispose (heap tr ! a0)] ! a0) = key (heap tr ! a0)"
    by (simp add: TrackedDocument_dispose_def)
  have kd: "key (heap tr ! a0) = toStateKey (AsUri (uri d))"
    using e0 by (simp add: entry_ok_def handle_def)
  have h0: "handle (document (heap tr ! a0)) = handle d"
    using e0 by (simp add: entry_ok_def handle_def)
  show "disposed (heap (onTextDocumentClosed d tr) ! a0)"
    using a0 by (simp add: closed_fields [OF assms(2)] TrackedDocument_dispose_def)
  show "lookup (onTextDocumentClosed d tr) k \<noteq> Some a0"
  proof
    assume "lookup (onTextDocumentClosed d tr) k = Some a0"
    then have "k \<noteq> handle d" "k \<noteq> ByKey (key (heap tr ! a0))" "lookup tr k = Some a0"
      by (simp_all add: lookup_closed [OF assms(2)] k0 split: if_splits)
    with cache_ok_reachable(2) [OF assms(1), of k a0] h0 show False by auto
  qed
  show "lookup (onTextDocumentClosed d tr) (handle d) = None"
    by (simp add: lookup_closed [OF assms(2)])
  show "lookup (onTextDocumentClosed d tr) (ByKey (toStateKey (AsUri (uri d)))) = None"
    by (simp add: lookup_closed [OF assms(2)] k0 kd)
qed

lemma idle_ok_cong:
  "dirtyIdleTriggeredDebounced tr' = dirtyIdleTriggeredDebounced tr \<Longrightarrow>
   dirtyIdleTriggerDelay tr' = dirtyIdleTriggerDelay tr \<Longrightarrow> idle_ok tr' = idle_ok tr"
  by (simp add: idle_ok_def split: option.splits)

lemma idle_ok_simps [simp]:
  "idle_ok (on_doc a f tr) = idle_ok tr"
  "idle_ok (for_each_value f tr) = idle_ok tr"
  "idle_ok (snd (addCore d tr)) = idle_ok tr"
  "idle_ok (tr \<lparr> dirtyStateChangedDebounced := x2 \<rparr>) = idle_ok tr"
  "idle_ok (tr \<lparr> immediates := x3 \<rparr>) = idle_ok tr"
  "idle_ok (tr \<lparr> fired := x4 \<rparr>) = idle_ok tr"
  "idle_ok (tr \<lparr> commandContext := x5 \<rparr>) = idle_ok tr"
  "idle_ok (tr \<lparr> subscribed := x7 \<rparr>) = idle_ok tr"
  "idle_ok (tr \<lparr> heap := x8 \<rparr>) = idle_ok tr"
  "idle_ok (tr \<lparr> documentMap := x9 \<rparr>) = idle_ok tr"
  "idle_ok (tr \<lparr> detachedIdleDebounces := x10 \<rparr>) = idle_ok tr"
  "idle_ok (tr \<lparr> awaiting := x11 \<rparr>) = idle_ok tr"
  "idle_ok (suspend k tr) = idle_ok tr"
  by (rule idle_ok_cong; simp)+

lemma idle_ok_None [simp]:
  "idle_ok (tr \<lparr> dirtyIdleTriggerDelay := v, dirtyIdleTriggeredDebounced := None \<rparr>)"
  by (simp add: idle_ok_def)

lemma idle_ok_rearmed:
  "idle_ok tr \<Longrightarrow> dirtyIdleTriggeredDebounced tr = Some deb \<Longrightarrow>
     idle_ok (tr \<lparr> dirtyIdleTriggeredDebounced := Some (invoke now p deb) \<rparr>)
     \<and> idle_ok (tr \<lparr> dirtyIdleTriggeredDebounced := Some (cancel deb) \<rparr>)"
  by (simp add: idle_ok_def invoke_def cancel_def)

lemma tracker_inv_new: "tracker_inv (new_DocumentTracker v)"
  by (simp add: tracker_inv_def cache_ok_def idle_ok_def new_DocumentTracker_simp)

lemma reset_keeps:
  "document (reset r td) = document td \<and> key (reset r td) = key td
   \<and> disposed (reset r td) = disposed td"
  by simp

lemma tracker_inv_configuration:
  "tracker_inv tr \<Longrightarrow> tracker_inv (onConfigurationChanged v e tr)"
  by (simp add: tracker_inv_def onConfigurationChanged_def Let_def cache_ok_for_each_value)

lemma tracker_inv_addCore:
  "tracker_inv tr \<Longrightarrow> tracker_inv (snd (addCore d tr))"
  by (simp add: tracker_inv_def cache_ok_addCore)

lemma tracker_inv_on_doc:
  assumes "\<And>td. document (f td) = document td \<and> key (f td) = key td \<and> disposed (f td) = disposed td"
  shows "tracker_inv (on_doc a f tr) = tracker_inv tr"
  by (simp add: tracker_inv_def cache_ok_on_doc assms)

lemma tracker_inv_activated:
  "tracker_inv tr \<Longrightarrow> tracker_inv (onActiveTextEditorChanged isTextEditor editor tr)"
  by (simp add: onActiveTextEditorChanged_def tracker_inv_addCore tracker_inv_on_doc
      activate_def tracker_inv_def cache_ok_addCore cache_ok_on_doc split: option.splits)

lemma tracker_inv_saved:
  "tracker_inv tr \<Longrightarrow> tracker_inv (onTextDocumentSaved act d tr)"
  by (simp add: onTextDocumentSaved_def tracker_inv_addCore tracker_inv_on_doc
      split: option.splits)

lemma tracker_inv_closed:
  "tracker_inv tr \<Longrightarrow> tracker_inv (onTextDocumentClosed d tr)"
proof -
  have "idle_ok (onTextDocumentClosed d tr) = idle_ok tr"
    by (rule idle_ok_cong) (simp_all add: onTextDocumentClosed_def Let_def split: option.splits)
  then show "tracker_inv tr \<Longrightarrow> tracker_inv (onTextDocumentClosed d tr)"
    by (simp add: tracker_inv_def cache_ok_closed)
qed

lemma tracker_inv_fire:
  "tracker_inv tr \<Longrightarrow> tracker_inv (fireDocumentDirtyStateChanged now ev tr)"
  by (auto simp add: tracker_inv_def idle_ok_def fireDocumentDirtyStateChanged_def Let_def
      invoke_def debounce_def split: option.splits)

lemma tracker_inv_idle_block:
  "tracker_inv tr \<Longrightarrow>
   tracker_inv (case dirtyIdleTriggeredDebounced tr of
                  None \<Rightarrow> tr
                | Some deb \<Rightarrow>
                    if dty
                    then tr \<lparr> dirtyIdleTriggeredDebounced := Some (invoke now p deb) \<rparr>
                    else tr \<lparr> dirtyIdleTriggeredDebounced := Some (cancel deb) \<rparr>)"
  by (auto simp add: tracker_inv_def idle_ok_rearmed split: option.splits)

lemma tracker_inv_changed:
  assumes "tracker_inv tr"
  shows "tracker_inv (onTextDocumentChanged now act e tr)"
proof (cases "scheme (uri (e_document e)) = DocumentSchemes_File")
  case False
  then show ?thesis using assms by (simp add: onTextDocumentChanged_def)
next
  case True
  obtain a tr1 where entry: "(case lookup tr (handle (e_document e)) of
                   Some a \<Rightarrow> (a, tr) | None \<Rightarrow> addCore (e_document e) tr) = (a, tr1)"
    by fastforce
  have 1: "tracker_inv tr1"
    using entry assms tracker_inv_addCore [of tr "e_document e"]
    by (auto split: option.splits)
  define tr2 where "tr2 = on_doc a (reset Document) tr1"
  define tr3 where "tr3 = (case dirtyIdleTriggeredDebounced tr2 of
                   None \<Rightarrow> tr2
                 | Some deb \<Rightarrow>
                     if isDirty (e_document e)
                     then tr2 \<lparr> dirtyIdleTriggeredDebounced :=
                                  Some (invoke now \<lparr> di_editor = act, di_document = a \<rparr> deb) \<rparr>
                     else tr2 \<lparr> dirtyIdleTriggeredDebounced := Some (cancel deb) \<rparr>)"
  define tr4 where "tr4 = on_doc a (\<lambda>td. (resetForceDirtyStateChangeOnNextDocumentChange td)
                                        \<lparr> dirty := isDirty (e_document e) \<rparr>) tr3"
  have 2: "tracker_inv tr2" unfolding tr2_def using 1 by (simp add: tracker_inv_on_doc)
  have 3: "tracker_inv tr3" unfolding tr3_def using 2 by (rule tracker_inv_idle_block)
  have 4: "tracker_inv tr4" unfolding tr4_def using 3
    by (simp add: tracker_inv_on_doc resetForceDirtyStateChangeOnNextDocumentChange_def)
  show ?thesis
    unfolding onTextDocumentChanged_file [OF True entry]
    using 3 4 tracker_inv_fire [OF 4]
    by (simp add: Let_def tr4_def [symmetric] tr3_def [symmetric] tr2_def [symmetric]
        split: option.splits)
qed

lemma tracker_inv_clear: "tracker_inv tr \<Longrightarrow> tracker_inv (clear tr)"
  by (simp add: tracker_inv_def clear_def) (simp add: cache_ok_def)

lemma tracker_inv_dispose: "tracker_inv tr \<Longrightarrow> tracker_inv (dispose tr)"
  by (simp add: tracker_inv_def dispose_def clear_def) (simp add: cache_ok_def)

lemma initialize_and_fire_idle [simp]:
  "dirtyIdleTriggeredDebounced (initialize_and_fire loads a f ev tr) = dirtyIdleTriggeredDebounced tr"
  "dirtyIdleTriggerDelay (initialize_and_fire loads a f ev tr) = dirtyIdleTriggerDelay tr"
  "length (heap (initialize_and_fire loads a f ev tr)) = length (heap tr)"
  by (simp_all add: initialize_and_fire_def split: sum.splits)

lemma tracker_inv_initialize_and_fire:
  assumes "\<And>td. document (f td) = document td \<and> key (f td) = key td \<and> disposed (f td) = disposed td"
  shows "tracker_inv (initialize_and_fire loads a f ev tr) = tracker_inv tr"
  by (simp add: tracker_inv_def cache_ok_initialize_and_fire assms
      idle_ok_cong [of "initialize_and_fire loads a f ev tr" tr])

lemma tracker_inv_fields [simp]:
  "tracker_inv (tr \<lparr> dirtyStateChangedDebounced := x2 \<rparr>) = tracker_inv tr"
  "tracker_inv (tr \<lparr> immediates := x3 \<rparr>) = tracker_inv tr"
  "tracker_inv (tr \<lparr> fired := x4 \<rparr>) = tracker_inv tr"
  "tracker_inv (tr \<lparr> commandContext := x5 \<rparr>) = tracker_inv tr"
  "tracker_inv (tr \<lparr> subscribed := x7 \<rparr>) = tracker_inv tr"
  "tracker_inv (tr \<lparr> detachedIdleDebounces := x8 \<rparr>) = tracker_inv tr"
  "tracker_inv (tr \<lparr> awaiting := x9 \<rparr>) = tracker_inv tr"
  "tracker_inv (suspend k tr) = tracker_inv tr"
  by (simp_all add: tracker_inv_def)

lemma tracker_inv_cancelled:
  "tracker_inv tr \<Longrightarrow> dirtyIdleTriggeredDebounced tr = Some deb \<Longrightarrow>
     tracker_inv (tr \<lparr> dirtyIdleTriggeredDebounced := Some (cancel deb) \<rparr>)"
  by (simp add: tracker_inv_def idle_ok_rearmed)

lemma tracker_inv_immediate:
  "tracker_inv tr \<Longrightarrow> tracker_inv (dirtyStateChangedImmediate act ev tr)"
  by (simp add: dirtyStateChangedImmediate_def Let_def split: option.splits)

lemma tracker_inv_runImmediates:
  assumes "tracker_inv tr"
  shows "tracker_inv (runImmediates act tr)"
proof -
  have "tracker_inv t \<Longrightarrow> tracker_inv (fold (dirtyStateChangedImmediate act) evs t)"
    for evs and t :: "'a DocumentTracker"
    by (induction evs arbitrary: t) (simp_all add: tracker_inv_immediate)
  moreover have "tracker_inv (tr \<lparr> immediates := [] \<rparr>)"
    using assms by simp
  ultimately show ?thesis by (simp add: runImmediates_def)
qed

lemma tracker_inv_idleTimer:
  "tracker_inv tr \<Longrightarrow> tracker_inv (idleTimerElapsed now tr)"
  by (simp add: idleTimerElapsed_def dirtyIdleTriggered_def tracker_inv_cancelled
      split: option.splits)

lemma tracker_inv_detachedIdleTimer:
  "tracker_inv tr \<Longrightarrow> tracker_inv (detachedIdleTimerElapsed i now tr)"
  by (simp add: detachedIdleTimerElapsed_def dirtyIdleTriggered_def split: option.splits)

lemma tracker_inv_cleanTimer:
  "tracker_inv tr \<Longrightarrow> tracker_inv (cleanTimerElapsed now act tr)"
  by (simp add: cleanTimerElapsed_def dirtyStateChanged_def split: option.splits)

lemma tracker_inv_resumed:
  "tracker_inv tr \<Longrightarrow> tracker_inv (continuationResumed loads i tr)"
proof (cases "i < length (awaiting tr)")
  case False
  then show "tracker_inv tr \<Longrightarrow> ?thesis" by (simp add: continuationResumed_def)
next
  case True
  assume "tracker_inv tr"
  then show ?thesis using True
    by (cases "awaiting tr ! i")
       (simp_all add: continuationResumed_def tracker_inv_initialize_and_fire)
qed

lemma tracker_inv_add_step:
  assumes "tracker_inv tr"
  shows "tracker_inv (snd (add_step opn loads c tr))"
proof (cases c)
  case (Added a)
  show ?thesis
  proof (cases "ensureInitialized loads (heap tr ! a)")
    case (Inl err)
    then show ?thesis using assms Added by simp
  next
    case (Inr td)
    from ensureInitialized_Inr [OF this]
    have "cache_ok (tr \<lparr> heap := (heap tr)[a := td] \<rparr>) = cache_ok tr"
      by (intro cache_ok_heap_update) simp_all
    then show ?thesis using assms Added Inr
      by (simp add: tracker_inv_def)
  qed
qed (use assms in \<open>auto simp add: add_addCore_def split_beta tracker_inv_addCore
       split: sum.splits\<close>)

section \<open>Calls of add in flight\<close>

lemma add_step_heap_grows:
  "length (heap tr) \<le> length (heap (snd (add_step opn loads c tr)))"
  by (cases c) (auto simp add: add_addCore_def split_beta split: sum.splits)

text \<open>What one segment of a call does to the entry it holds.\<close>

lemma add_addCore_entry:
  "add_addCore d tr = (Added (length (heap tr)), snd (addCore d tr))"
  by (simp add: add_addCore_def split_beta)

lemma add_step_entry:
  assumes "add_step opn loads c tr = (c', tr')"
  shows "(entry_of c' = entry_of c \<or> entry_of c' = None) \<and> length (heap tr') = length (heap tr)
           \<and> documentMap tr' = documentMap tr
         \<or> entry_of c = None \<and> entry_of c' = Some (length (heap tr))
           \<and> (\<exists>d. tr' = snd (addCore d tr) \<and> (c = Opened d \<or> c = Called (IdDocument d)))"
proof (cases c)
  case (Called ident)
  show ?thesis
  proof (cases ident)
    case (IdDocument d)
    with Called assms have "c' = Added (length (heap tr))" "tr' = snd (addCore d tr)"
      by (simp_all add: add_addCore_entry)
    with Called IdDocument show ?thesis by simp
  next
    case (IdFileName s)
    with Called assms have "tr' = tr" "entry_of c' = None"
      by (auto split: sum.splits)
    with Called show ?thesis by simp
  next
    case (IdUri u)
    with Called assms have "tr' = tr" "entry_of c' = None"
      by (auto split: sum.splits)
    with Called show ?thesis by simp
  qed
next
  case (Opened d)
  with assms have "c' = Added (length (heap tr))" "tr' = snd (addCore d tr)"
    by (simp_all add: add_addCore_entry)
  with Opened show ?thesis by simp
next
  case (Added a)
  with assms have "(entry_of c' = Some a \<or> entry_of c' = None)
      \<and> length (heap tr') = length (heap tr) \<and> documentMap tr' = documentMap tr"
    by (auto split: sum.splits)
  with Added show ?thesis by simp
next
  case (Resolved a)
  with assms show ?thesis by auto
next
  case (Rejected err)
  with assms show ?thesis by auto
qed

lemma calls_invD:
  "calls_inv cs tr \<Longrightarrow> i < length cs \<Longrightarrow> entry_of (cs ! i) = Some a \<Longrightarrow> a < length (heap tr)"
  unfolding calls_inv_def by blast

lemma calls_inv_uniq:
  "calls_inv cs tr \<Longrightarrow> i < length cs \<Longrightarrow> entry_of (cs ! i) = Some a \<Longrightarrow>
     j < length cs \<Longrightarrow> entry_of (cs ! j) = Some a \<Longrightarrow> j = i"
  unfolding calls_inv_def by blast

lemma calls_invI:
  assumes "\<And>i a. i < length cs \<Longrightarrow> entry_of (cs ! i) = Some a \<Longrightarrow> a < length (heap tr)"
    and "\<And>i j a. i < length cs \<Longrightarrow> j < length cs \<Longrightarrow> entry_of (cs ! i) = Some a \<Longrightarrow>
           entry_of (cs ! j) = Some a \<Longrightarrow> j = i"
  shows "calls_inv cs tr"
  unfolding calls_inv_def using assms by blast

lemma calls_inv_weaken:
  assumes inv: "calls_inv cs tr" and len: "length cs' = length cs"
    and sub: "\<And>j a. j < length cs \<Longrightarrow> entry_of (cs' ! j) = Some a \<Longrightarrow> entry_of (cs ! j) = Some a"
    and grow: "length (heap tr) \<le> length (heap tr')"
  shows "calls_inv cs' tr'"
proof (rule calls_invI)
  fix i a
  assume "i < length cs'" "entry_of (cs' ! i) = Some a"
  then have "i < length cs" "entry_of (cs ! i) = Some a" using sub len by simp_all
  from calls_invD [OF inv this] grow show "a < length (heap tr')" by simp
next
  fix i j a
  assume "i < length cs'" "j < length cs'" "entry_of (cs' ! i) = Some a" "entry_of (cs' ! j) = Some a"
  then have "i < length cs" "j < length cs" "entry_of (cs ! i) = Some a" "entry_of (cs ! j) = Some a"
    using sub len by simp_all
  then show "j = i" using calls_inv_uniq [OF inv] by blast
qed

lemma calls_inv_fresh:
  assumes inv: "calls_inv cs tr" and i: "i < length cs"
    and none: "entry_of (cs ! i) = None" and new: "entry_of c' = Some (length (heap tr))"
    and len: "length (heap tr') = Suc (length (heap tr))"
  shows "calls_inv (cs[i := c']) tr'"
proof (rule calls_invI)
  have e: "entry_of (cs[i := c'] ! l) = (if l = i then Some (length (heap tr)) else entry_of (cs ! l))"
    if "l < length cs" for l
    using that new by simp
  {
    fix j a
    assume j: "j < length (cs[i := c'])" and a: "entry_of (cs[i := c'] ! j) = Some a"
    show "a < length (heap tr')"
    proof (cases "j = i")
      case True
      then show ?thesis using a e [of j] j len by simp
    next
      case False
      then have "entry_of (cs ! j) = Some a" using a e [of j] j by simp
      from calls_invD [OF inv _ this] j len show ?thesis by simp
    qed
  }
  {
    fix j l a
    assume j: "j < length (cs[i := c'])" and l: "l < length (cs[i := c'])"
      and a: "entry_of (cs[i := c'] ! j) = Some a" and b: "entry_of (cs[i := c'] ! l) = Some a"
    have old: "entry_of (cs ! m) = Some a \<Longrightarrow> m < length cs \<Longrightarrow> a \<noteq> length (heap tr)" for m
      using calls_invD [OF inv, of m a] by simp
    show "l = j"
    proof (cases "j = i")
      case True
      then have an: "a = length (heap tr)" using a e [of j] j by simp
      show ?thesis
      proof (cases "l = i")
        case True
        then show ?thesis using \<open>j = i\<close> by simp
      next
        case False
        then have "entry_of (cs ! l) = Some a" using b e [of l] l by simp
        from old [OF this] l an show ?thesis by simp
      qed
    next
      case False
      then have oj: "entry_of (cs ! j) = Some a" using a e [of j] j by simp
      show ?thesis
      proof (cases "l = i")
        case True
        then have "a = length (heap tr)" using b e [of l] l by simp
        with old [OF oj] j show ?thesis by simp
      next
        case False
        then have "entry_of (cs ! l) = Some a" using b e [of l] l by simp
        from calls_inv_uniq [OF inv _ oj _ this] j l show ?thesis by simp
      qed
    qed
  }
qed

lemma calls_inv_step:
  assumes inv: "calls_inv cs tr" and i: "i < length cs"
    and step: "add_step opn loads (cs ! i) tr = (c', tr')"
  shows "calls_inv (cs[i := c']) tr'"
proof -
  from add_step_entry [OF step] show ?thesis
  proof
    assume same: "(entry_of c' = entry_of (cs ! i) \<or> entry_of c' = None)
           \<and> length (heap tr') = length (heap tr) \<and> documentMap tr' = documentMap tr"
    have "entry_of (cs ! j) = Some a" if "j < length cs" "entry_of (cs[i := c'] ! j) = Some a" for j a
      using that same by (cases "j = i") auto
    then show ?thesis
      using calls_inv_weaken [OF inv, of "cs[i := c']" tr'] same by simp
  next
    assume new: "entry_of (cs ! i) = None \<and> entry_of c' = Some (length (heap tr))
           \<and> (\<exists>d. tr' = snd (addCore d tr) \<and> (cs ! i = Opened d \<or> cs ! i = Called (IdDocument d)))"
    then have "length (heap tr') = Suc (length (heap tr))" by auto
    with calls_inv_fresh [OF inv i] new show ?thesis by blast
  qed
qed

section \<open>Every history keeps the tracker well formed\<close>

lemma heap_grows_configuration:
  "length (heap (onConfigurationChanged v e tr)) = length (heap tr)"
  by (simp add: onConfigurationChanged_def Let_def)

lemma heap_grows_activated:
  "length (heap tr) \<le> length (heap (onActiveTextEditorChanged isTextEditor editor tr))"
  by (simp add: onActiveTextEditorChanged_def split: option.splits)

lemma heap_grows_changed:
  "length (heap tr) \<le> length (heap (onTextDocumentChanged now act e tr))"
proof (cases "scheme (uri (e_document e)) = DocumentSchemes_File")
  case False
  then show ?thesis by (simp add: onTextDocumentChanged_def)
next
  case True
  obtain a tr1 where entry: "(case lookup tr (handle (e_document e)) of
                   Some a \<Rightarrow> (a, tr) | None \<Rightarrow> addCore (e_document e) tr) = (a, tr1)"
    by fastforce
  then have "length (heap tr) \<le> length (heap tr1)"
    by (auto split: option.splits simp add: addCore_simp)
  moreover have "length (heap (onTextDocumentChanged now act e tr)) = length (heap tr1)"
    using change_documents [OF True entry, of now act] by (metis length_map)
  ultimately show ?thesis by simp
qed

lemma heap_grows_closed:
  "length (heap (onTextDocumentClosed d tr)) = length (heap tr)"
  by (simp add: onTextDocumentClosed_def Let_def split: option.splits)

lemma heap_grows_saved:
  "length (heap tr) \<le> length (heap (onTextDocumentSaved act d tr))"
  by (simp add: onTextDocumentSaved_def split: option.splits)

lemma heap_grows_clear: "length (heap (clear tr)) = length (heap tr)"
  by (simp add: clear_def)

lemma heap_grows_idleTimer:
  "heap (idleTimerElapsed now tr) = heap tr"
  by (simp add: idleTimerElapsed_def dirtyIdleTriggered_def split: option.splits)

lemma heap_grows_detachedIdleTimer:
  "heap (detachedIdleTimerElapsed i now tr) = heap tr"
  by (simp add: detachedIdleTimerElapsed_def dirtyIdleTriggered_def split: option.splits)

lemma heap_grows_cleanTimer:
  "heap (cleanTimerElapsed now act tr) = heap tr"
  by (simp add: cleanTimerElapsed_def dirtyStateChanged_def split: option.splits)

lemma heap_grows_resumed:
  "length (heap (continuationResumed loads i tr)) = length (heap tr)"
proof (cases "i < length (awaiting tr)")
  case False
  then show ?thesis by (simp add: continuationResumed_def)
next
  case True
  then show ?thesis
    by (cases "awaiting tr ! i") (simp_all add: continuationResumed_def)
qed

lemma calls_inv_grow:
  "calls_inv cs tr \<Longrightarrow> length (heap tr) \<le> length (heap tr') \<Longrightarrow> calls_inv cs tr'"
  by (rule calls_inv_weaken [of cs tr cs tr']) simp_all

lemma run_adds_single:
  "run_adds opn loads [i] (cs, tr) =
     (if i < length cs
      then (cs[i := fst (add_step opn loads (cs ! i) tr)], snd (add_step opn loads (cs ! i) tr))
      else (cs, tr))"
  by (simp add: split_beta)

lemma calls_inv_called:
  assumes "calls_inv cs tr" "add_step opn loads (Called ident) tr = (c, tr1)"
  shows "calls_inv (cs @ [c]) tr1"
proof -
  have 0: "calls_inv (cs @ [Called ident]) tr"
  proof (rule calls_invI)
    fix i a
    assume "i < length (cs @ [Called ident])" "entry_of ((cs @ [Called ident]) ! i) = Some a"
    then have "i < length cs \<and> entry_of (cs ! i) = Some a"
      by (cases "i < length cs") (simp_all add: nth_append)
    then show "a < length (heap tr)" using calls_invD [OF assms(1)] by blast
  next
    fix i j a
    assume "i < length (cs @ [Called ident])" "j < length (cs @ [Called ident])"
      "entry_of ((cs @ [Called ident]) ! i) = Some a" "entry_of ((cs @ [Called ident]) ! j) = Some a"
    then have "i < length cs \<and> entry_of (cs ! i) = Some a" "j < length cs \<and> entry_of (cs ! j) = Some a"
      by (cases "i < length cs"; cases "j < length cs"; simp add: nth_append)+
    then show "j = i" using calls_inv_uniq [OF assms(1)] by blast
  qed
  have 1: "length cs < length (cs @ [Called ident])" by simp
  have 2: "add_step opn loads ((cs @ [Called ident]) ! length cs) tr = (c, tr1)"
    using assms(2) by (simp only: nth_append_length)
  from calls_inv_step [OF 0 1 2] show ?thesis by simp
qed

lemma perform_inv:
  assumes "tracker_inv (snd s)" "calls_inv (fst s) (snd s)"
  shows "tracker_inv (snd (perform h act s)) \<and> calls_inv (fst (perform h act s)) (snd (perform h act s))"
proof -
  obtain cs tr where s: "s = (cs, tr)" by (cases s)
  with assms have t: "tracker_inv tr" and c: "calls_inv cs tr" by simp_all
  show ?thesis
  proof (cases act)
    case (ConfigurationChanged v e)
    then show ?thesis using s t c
      by (simp add: tracker_inv_configuration calls_inv_grow heap_grows_configuration)
  next
    case (ActiveTextEditorChanged ed)
    then show ?thesis using s t c
      by (simp add: tracker_inv_activated calls_inv_grow heap_grows_activated)
  next
    case (TextDocumentChanged now ae e)
    then show ?thesis using s t c
      by (simp add: tracker_inv_changed calls_inv_grow heap_grows_changed)
  next
    case (TextDocumentClosed d)
    then show ?thesis using s t c
      by (simp add: tracker_inv_closed calls_inv_grow heap_grows_closed)
  next
    case (TextDocumentSaved ae d)
    then show ?thesis using s t c
      by (simp add: tracker_inv_saved calls_inv_grow heap_grows_saved)
  next
    case (AddCalled ident)
    obtain c' tr1 where st: "add_step (host_openTextDocument h) (host_loads h) (Called ident) tr = (c', tr1)"
      by fastforce
    from tracker_inv_add_step [OF t, of "host_openTextDocument h" "host_loads h" "Called ident"] st
    have "tracker_inv tr1" by simp
    then show ?thesis using AddCalled s st calls_inv_called [OF c st] by simp
  next
    case (AddResumed i)
    show ?thesis
    proof (cases "i < length cs")
      case False
      then show ?thesis using AddResumed s t c by simp
    next
      case True
      obtain c' tr1 where st: "add_step (host_openTextDocument h) (host_loads h) (cs ! i) tr = (c', tr1)"
        by fastforce
      from tracker_inv_add_step [OF t, of "host_openTextDocument h" "host_loads h" "cs ! i"] st
      have "tracker_inv tr1" by simp
      then show ?thesis using AddResumed s True st calls_inv_step [OF c True st] by simp
    qed
  next
    case ClearCalled
    then show ?thesis using s t c
      by (simp add: tracker_inv_clear calls_inv_grow heap_grows_clear)
  next
    case DisposeCalled
    then show ?thesis using s t c
      by (simp add: tracker_inv_dispose calls_inv_grow)
  next
    case (ImmediatesRun ae)
    then show ?thesis using s t c
      by (simp add: tracker_inv_runImmediates calls_inv_grow)
  next
    case (IdleTimerElapsed now)
    then show ?thesis using s t c
      by (simp add: tracker_inv_idleTimer calls_inv_grow heap_grows_idleTimer)
  next
    case (DetachedIdleTimerElapsed i now)
    then show ?thesis using s t c
      by (simp add: tracker_inv_detachedIdleTimer calls_inv_grow heap_grows_detachedIdleTimer)
  next
    case (CleanTimerElapsed now ae)
    then show ?thesis using s t c
      by (simp add: tracker_inv_cleanTimer calls_inv_grow heap_grows_cleanTimer)
  next
    case (ContinuationResumed i)
    then show ?thesis using s t c
      by (simp add: tracker_inv_resumed calls_inv_grow heap_grows_resumed)
  qed
qed

lemma fold_perform_inv:
  "tracker_inv (snd s) \<Longrightarrow> calls_inv (fst s) (snd s) \<Longrightarrow>
     tracker_inv (snd (fold (perform h) acts s))
     \<and> calls_inv (fst (fold (perform h) acts s)) (snd (fold (perform h) acts s))"
  by (induction acts arbitrary: s) (simp_all add: perform_inv)

lemma history_inv:
  "tracker_inv (tracker_after h v acts :: 'a DocumentTracker)"
  "calls_inv (fst (history h v acts :: add_call list \<times> 'a DocumentTracker))
     (tracker_after h v acts :: 'a DocumentTracker)"
proof -
  have "calls_inv [] (new_DocumentTracker v :: 'a DocumentTracker)"
    by (simp add: calls_inv_def)
  with fold_perform_inv [of "([], new_DocumentTracker v :: 'a DocumentTracker)" h acts]
  have "tracker_inv (snd (history h v acts :: add_call list \<times> 'a DocumentTracker))
        \<and> calls_inv (fst (history h v acts :: add_call list \<times> 'a DocumentTracker))
            (snd (history h v acts :: add_call list \<times> 'a DocumentTracker))"
    by (simp add: history_def tracker_inv_new)
  then show "tracker_inv (tracker_after h v acts :: 'a DocumentTracker)"
    "calls_inv (fst (history h v acts :: add_call list \<times> 'a DocumentTracker))
       (tracker_after h v acts :: 'a DocumentTracker)"
    by (simp_all only: tracker_after_def)
qed


text \<open>
  In a well-formed tracker, hence in every history, the entry a change event works on is
  in the store.
\<close>

lemma entry_stored:
  assumes "tracker_inv tr"
    and "(case lookup tr (handle d) of Some a \<Rightarrow> (a, tr) | None \<Rightarrow> addCore d tr) = (a, tr1)"
  shows "a < length (heap tr1)"
proof (cases "lookup tr (handle d)")
  case None
  then show ?thesis using assms(2) by (auto simp add: addCore_simp)
next
  case (Some b)
  then have "b < length (heap tr)"
    using store_ok_lookup [OF cache_ok_store_ok, of tr "handle d" b] assms(1)
    by (simp add: tracker_inv_def)
  then show ?thesis using Some assms(2) by auto
qed

section \<open>The stored dirty flag before the first change event\<close>

lemma same_document_handle: "same_document a b \<longleftrightarrow> handle a = handle b"
  by (simp add: same_document_def handle_def)

lemma reports_dirty_same:
  "same_document d d' \<Longrightarrow> reports_dirty d' x \<Longrightarrow> reports_dirty d x"
  by (cases x) (simp_all add: same_document_def)

lemma flags_cong: "heap tr' = heap tr \<Longrightarrow> flags tr' = flags tr"
  by (simp add: flags_def)

lemma flags_heap_update:
  assumes "document td = document (heap tr ! a)" "dirty td = dirty (heap tr ! a)"
  shows "flags (tr \<lparr> heap := (heap tr)[a := td] \<rparr>) = flags tr"
  unfolding flags_def using assms by (simp add: map_list_update_same)

lemma flags_on_doc:
  assumes "\<And>td. document (f td) = document td \<and> dirty (f td) = dirty td"
  shows "flags (on_doc a f tr) = flags tr"
  unfolding on_doc_def by (rule flags_heap_update) (simp_all add: assms)

lemma flags_for_each_value:
  assumes "\<And>td. document (f td) = document td \<and> dirty (f td) = dirty td"
  shows "flags (for_each_value f tr) = flags tr"
proof -
  have "flags (fold (\<lambda>a. on_doc a f) as t) = flags t" for as and t :: "'a DocumentTracker"
    by (induction as arbitrary: t) (simp_all add: flags_on_doc assms)
  then show ?thesis by (simp add: for_each_value_def)
qed

lemma flags_addCore: "flags (snd (addCore d tr)) = flags tr @ [(d, False)]"
  by (simp add: flags_def new_TrackedDocument_def)

lemma flags_initialize_and_fire:
  assumes "\<And>td. document (f td) = document td \<and> dirty (f td) = dirty td"
  shows "flags (initialize_and_fire loads a f ev tr) = flags tr"
proof (cases "ensureInitialized loads (heap tr ! a)")
  case (Inl err)
  then show ?thesis by (simp add: initialize_and_fire_def)
next
  case (Inr td)
  from ensureInitialized_Inr [OF this] assms
  have "flags (tr \<lparr> heap := (heap tr)[a := f td] \<rparr>) = flags tr"
    by (intro flags_heap_update) simp_all
  then show ?thesis using Inr by (simp add: initialize_and_fire_def flags_def)
qed

text \<open>Every handler but the change handler keeps the buffers and the stored dirty flags.\<close>

lemma flags_configuration: "flags (onConfigurationChanged v e tr) = flags tr"
proof -
  have "heap (onConfigurationChanged v e tr) = heap tr
        \<or> heap (onConfigurationChanged v e tr) = heap (for_each_value (reset Config) tr)"
    by (simp add: onConfigurationChanged_def Let_def)
  then show ?thesis
    using flags_for_each_value [of "reset Config" tr] by (auto simp add: flags_def)
qed

lemma flags_activated:
  "flags (onActiveTextEditorChanged isTextEditor editor tr) = flags tr
   \<or> (\<exists>d. flags (onActiveTextEditorChanged isTextEditor editor tr) = flags tr @ [(d, False)])"
proof (cases editor)
  case None
  have "flags (tr \<lparr> commandContext := cc \<rparr>) = flags tr" for cc
    by (intro flags_cong) simp
  then show ?thesis using None by (simp add: onActiveTextEditorChanged_def)
next
  case (Some ed)
  show ?thesis
  proof (cases "lookup tr (handle (editor_document ed))")
    case None
    then show ?thesis using Some
      by (simp add: onActiveTextEditorChanged_def flags_addCore)
  next
    case (Some a)
    have "flags (on_doc a activate tr) = flags tr"
      by (rule flags_on_doc) (simp add: activate_def)
    then show ?thesis using Some \<open>editor = Some ed\<close>
      by (simp add: onActiveTextEditorChanged_def)
  qed
qed

lemma flags_closed: "flags (onTextDocumentClosed d tr) = flags tr"
proof (cases "lookup tr (handle d)")
  case None
  then show ?thesis by (simp add: onTextDocumentClosed_def)
next
  case (Some a)
  have "flags (onTextDocumentClosed d tr) = flags (on_doc a TrackedDocument_dispose tr)"
    using Some by (intro flags_cong) (simp add: onTextDocumentClosed_def Let_def)
  then show ?thesis by (simp add: flags_on_doc TrackedDocument_dispose_def)
qed

lemma flags_saved:
  "flags (onTextDocumentSaved act d tr) = flags tr
   \<or> flags (onTextDocumentSaved act d tr) = flags tr @ [(d, False)]"
  by (simp add: onTextDocumentSaved_def flags_addCore flags_on_doc split: option.splits)

lemma flags_clear: "flags (clear tr) = flags tr"
proof -
  have "flags (clear tr) = flags (for_each_value TrackedDocument_dispose tr)"
    by (intro flags_cong) (simp add: clear_def)
  then show ?thesis by (simp add: flags_for_each_value TrackedDocument_dispose_def)
qed

lemma flags_dispose: "flags (dispose tr) = flags tr"
proof -
  have "flags (tr \<lparr> subscribed := False \<rparr>) = flags tr" by (intro flags_cong) simp
  then show ?thesis by (simp add: dispose_def flags_clear)
qed

lemma flags_add_step:
  "flags (snd (add_step opn loads c tr)) = flags tr
   \<or> (\<exists>d. flags (snd (add_step opn loads c tr)) = flags tr @ [(d, False)])"
proof (cases c)
  case (Added a)
  show ?thesis
  proof (cases "ensureInitialized loads (heap tr ! a)")
    case (Inl err)
    then show ?thesis using Added by simp
  next
    case (Inr td)
    from ensureInitialized_Inr [OF this]
    have "flags (tr \<lparr> heap := (heap tr)[a := td] \<rparr>) = flags tr"
      by (intro flags_heap_update) simp_all
    then show ?thesis using Added Inr by simp
  qed
qed (auto simp add: add_addCore_def split_beta flags_addCore split: sum.splits)

lemma flags_resumed: "flags (continuationResumed loads i tr) = flags tr"
proof (cases "i < length (awaiting tr)")
  case False
  then show ?thesis by (simp add: continuationResumed_def)
next
  case True
  have "flags (tr \<lparr> awaiting := ks \<rparr>) = flags tr" for ks by (intro flags_cong) simp
  then show ?thesis using True
    by (cases "awaiting tr ! i") (simp_all add: continuationResumed_def flags_initialize_and_fire)
qed

text \<open>
  The change handler writes the buffer's dirty flag into the tracked document of the
  changed buffer, and into no other.
\<close>

lemma flags_changed:
  fixes tr :: "'T DocumentTracker"
  assumes local_file: "scheme (uri (e_document e)) = DocumentSchemes_File"
    and entry: "(case lookup tr (handle (e_document e)) of
                   Some a \<Rightarrow> (a, tr) | None \<Rightarrow> addCore (e_document e) tr) = (a, tr1)"
  shows "flags (onTextDocumentChanged now act e tr) = flags tr1
         \<or> flags (onTextDocumentChanged now act e tr)
              = (flags tr1)[a := (document (heap tr1 ! a), isDirty (e_document e))]"
proof -
  define tr2 where "tr2 = on_doc a (reset Document) tr1"
  define tr3 where "tr3 = (case dirtyIdleTriggeredDebounced tr2 of
                   None \<Rightarrow> tr2
                 | Some deb \<Rightarrow>
                     if isDirty (e_document e)
                     then tr2 \<lparr> dirtyIdleTriggeredDebounced :=
                                  Some (invoke now \<lparr> di_editor = act, di_document = a \<rparr> deb) \<rparr>
                     else tr2 \<lparr> dirtyIdleTriggeredDebounced := Some (cancel deb) \<rparr>)"
  define tr4 where "tr4 = on_doc a (\<lambda>td. (resetForceDirtyStateChangeOnNextDocumentChange td)
                                        \<lparr> dirty := isDirty (e_document e) \<rparr>) tr3"
  have 2: "flags tr2 = flags tr1"
    unfolding tr2_def by (rule flags_on_doc) simp
  have 3: "heap tr3 = heap tr2"
    unfolding tr3_def by (simp split: option.splits)
  then have f3: "flags tr3 = flags tr1" using 2 by (simp add: flags_def)
  have d3: "document (heap tr3 ! a) = document (heap tr1 ! a)" if "a < length (heap tr1)"
    using that unfolding 3 tr2_def by simp
  have 4: "flags tr4 = (flags tr1)[a := (document (heap tr1 ! a), isDirty (e_document e))]"
  proof (cases "a < length (heap tr1)")
    case True
    have "flags tr4
            = (flags tr3)[a := (document (heap tr3 ! a), isDirty (e_document e))]"
      unfolding tr4_def flags_def
      by (simp add: map_update resetForceDirtyStateChangeOnNextDocumentChange_def)
    then show ?thesis using d3 [OF True] f3 by simp
  next
    case False
    then have "length (flags tr1) \<le> a" "length (heap tr3) \<le> a"
      using 3 by (simp_all add: flags_def tr2_def)
    then have "flags tr4 = flags tr3"
      "(flags tr1)[a := (document (heap tr1 ! a), isDirty (e_document e))] = flags tr1"
      unfolding tr4_def flags_def by (simp_all add: list_update_beyond)
    then show ?thesis using f3 by simp
  qed
  have "heap (onTextDocumentChanged now act e tr) = heap tr3
        \<or> heap (onTextDocumentChanged now act e tr) = heap tr4"
    unfolding onTextDocumentChanged_file [OF local_file entry] tr4_def tr3_def tr2_def
    by (simp add: Let_def split: option.splits)
  then have "flags (onTextDocumentChanged now act e tr) = flags tr3
        \<or> flags (onTextDocumentChanged now act e tr) = flags tr4"
    by (auto simp add: flags_def)
  then show ?thesis using f3 4 by auto
qed

lemma dirty_inv_iff:
  "dirty_inv acts tr \<longleftrightarrow> (\<forall>(d, b) \<in> set (flags tr). b \<longrightarrow> list_ex (reports_dirty d) acts)"
  by (simp add: dirty_inv_def list_all_iff)

lemma dirty_inv_later:
  assumes "dirty_inv acts tr"
    and "flags tr' = flags tr \<or> (\<exists>d. flags tr' = flags tr @ [(d, False)])"
  shows "dirty_inv (acts @ [act]) tr'"
  using assms by (auto simp add: dirty_inv_iff)

lemma entry_document:
  assumes "tracker_inv tr"
    and "(case lookup tr (handle d) of Some a \<Rightarrow> (a, tr) | None \<Rightarrow> addCore d tr) = (a, tr1)"
  shows "same_document d (document (heap tr1 ! a))"
proof (cases "lookup tr (handle d)")
  case None
  then show ?thesis using assms(2) by (auto simp add: addCore_simp new_TrackedDocument_def)
next
  case (Some b)
  from assms(1) have "cache_ok tr" by (simp add: tracker_inv_def)
  from cache_okD [OF this Some] have "handle (document (heap tr ! b)) = handle d"
    by (simp add: entry_ok_def handle_def)
  then show ?thesis using Some assms(2) by (auto simp add: same_document_handle)
qed

lemma dirty_inv_changed:
  fixes tr :: "'T DocumentTracker"
  assumes inv: "tracker_inv tr" and d: "dirty_inv acts tr"
  shows "dirty_inv (acts @ [TextDocumentChanged now act e]) (onTextDocumentChanged now act e tr)"
proof (cases "scheme (uri (e_document e)) = DocumentSchemes_File")
  case False
  then have "onTextDocumentChanged now act e tr = tr" by (simp add: onTextDocumentChanged_def)
  then show ?thesis using dirty_inv_later [OF d, of tr] by simp
next
  case True
  obtain a tr1 where entry: "(case lookup tr (handle (e_document e)) of
                   Some a \<Rightarrow> (a, tr) | None \<Rightarrow> addCore (e_document e) tr) = (a, tr1)"
    by fastforce
  let ?A = "TextDocumentChanged now act e"
  have "flags tr1 = flags tr \<or> flags tr1 = flags tr @ [(e_document e, False)]"
    using entry by (auto simp add: flags_addCore [symmetric] split: option.splits)
  then have 1: "b \<longrightarrow> list_ex (reports_dirty d') (acts @ [?A])" if "(d', b) \<in> set (flags tr1)" for d' b
    using d that by (auto simp add: dirty_inv_iff)
  have new: "isDirty (e_document e) \<longrightarrow>
               list_ex (reports_dirty (document (heap tr1 ! a))) (acts @ [?A])"
    using entry_document [OF inv entry] by simp
  have "b \<longrightarrow> list_ex (reports_dirty d') (acts @ [?A])"
    if m: "(d', b) \<in> set (flags (onTextDocumentChanged now act e tr))" for d' b
  proof -
    from flags_changed [OF True entry, of now act] m
    have "(d', b) \<in> set (flags tr1)
          \<or> (d', b) \<in> set ((flags tr1)[a := (document (heap tr1 ! a), isDirty (e_document e))])"
      by auto
    then have "(d', b) \<in> set (flags tr1)
               \<or> (d', b) = (document (heap tr1 ! a), isDirty (e_document e))"
      using set_update_subset_insert [of "flags tr1" a] by auto
    then show ?thesis using 1 new by auto
  qed
  then show ?thesis by (auto simp add: dirty_inv_iff)
qed

lemma perform_dirty_inv:
  assumes "tracker_inv (snd s)" "dirty_inv acts (snd s)"
  shows "dirty_inv (acts @ [act]) (snd (perform h act s))"
proof -
  obtain cs tr where s: "s = (cs, tr)" by (cases s)
  with assms have t: "tracker_inv tr" and d: "dirty_inv acts tr" by simp_all
  note later = dirty_inv_later [OF d]
  show ?thesis
  proof (cases act)
    case (ConfigurationChanged v e)
    then show ?thesis using s later [of "onConfigurationChanged v e tr"]
      by (simp add: flags_configuration)
  next
    case (ActiveTextEditorChanged ed)
    then show ?thesis
      using s later [OF flags_activated [of "host_isTextEditor h" ed tr]] by simp
  next
    case (TextDocumentChanged now ae e)
    then show ?thesis using s dirty_inv_changed [OF t d] by simp
  next
    case (TextDocumentClosed doc)
    then show ?thesis using s later [of "onTextDocumentClosed doc tr"]
      by (simp add: flags_closed)
  next
    case (TextDocumentSaved ae doc)
    then show ?thesis using s later [of "onTextDocumentSaved ae doc tr"] flags_saved [of ae doc tr]
      by auto
  next
    case (AddCalled ident)
    then show ?thesis
      using s later [OF flags_add_step [of "host_openTextDocument h" "host_loads h" "Called ident" tr]]
      by (simp add: split_beta)
  next
    case (AddResumed i)
    then show ?thesis
      using s later [OF flags_add_step [of "host_openTextDocument h" "host_loads h" "cs ! i" tr]]
        later [of tr]
      by (simp add: split_beta)
  next
    case ClearCalled
    then show ?thesis using s later [of "clear tr"] by (simp add: flags_clear)
  next
    case DisposeCalled
    then show ?thesis using s later [of "dispose tr"] by (simp add: flags_dispose)
  next
    case (ImmediatesRun ae)
    then show ?thesis using s later [of "runImmediates ae tr"] by (simp add: flags_def)
  next
    case (IdleTimerElapsed now)
    then show ?thesis using s later [of "idleTimerElapsed now tr"]
      by (simp add: flags_def heap_grows_idleTimer)
  next
    case (DetachedIdleTimerElapsed i now)
    then show ?thesis using s later [of "detachedIdleTimerElapsed i now tr"]
      by (simp add: flags_def heap_grows_detachedIdleTimer)
  next
    case (CleanTimerElapsed now ae)
    then show ?thesis using s later [of "cleanTimerElapsed now ae tr"]
      by (simp add: flags_def heap_grows_cleanTimer)
  next
    case (ContinuationResumed i)
    then show ?thesis using s later [of "continuationResumed (host_loads h) i tr"]
      by (simp add: flags_resumed)
  qed
qed

lemma fold_perform_dirty_inv:
  "tracker_inv (snd s) \<Longrightarrow> calls_inv (fst s) (snd s) \<Longrightarrow> dirty_inv pre (snd s) \<Longrightarrow>
     dirty_inv (pre @ acts) (snd (fold (perform h) acts s))"
proof (induction acts arbitrary: s pre)
  case Nil
  then show ?case by simp
next
  case (Cons act acts)
  from perform_inv [OF Cons.prems(1,2), of h act]
  have 1: "tracker_inv (snd (perform h act s))"
    "calls_inv (fst (perform h act s)) (snd (perform h act s))"
    by simp_all
  from perform_dirty_inv [OF Cons.prems(1,3), of act h]
  have 2: "dirty_inv (pre @ [act]) (snd (perform h act s))" .
  from Cons.IH [OF 1 2] show ?case by simp
qed

text \<open>
  In every history a stored dirty flag is set only on a tracked document whose buffer a
  change event has reported dirty.
\<close>

lemma history_dirty_inv:
  "dirty_inv acts (tracker_after h v acts :: 'a DocumentTracker)"
proof -
  have "calls_inv [] (new_DocumentTracker v :: 'a DocumentTracker)"
    by (simp add: calls_inv_def)
  moreover have "dirty_inv [] (new_DocumentTracker v :: 'a DocumentTracker)"
    by (simp add: dirty_inv_def flags_def new_DocumentTracker_simp)
  ultimately show ?thesis
    using fold_perform_dirty_inv [of "([], new_DocumentTracker v :: 'a DocumentTracker)" "[]" acts h]
    by (simp add: tracker_after_def history_def tracker_inv_new)
qed

subsection \<open>The first change of a dirty buffer\<close>

lemma untitled_tracker_simp:
  "untitled_tracker =
     \<lparr> dirtyIdleTriggerDelay = 5000, subscribed = True,
       documentMap = [(handle untitled, 0), (ByKey ''untitled-1'', 0)],
       heap = [new_TrackedDocument untitled ''untitled-1'' False],
       dirtyIdleTriggeredDebounced = None, dirtyStateChangedDebounced = None,
       immediates = [], fired = [], commandContext = [],
       detachedIdleDebounces = [], awaiting = [] \<rparr>"
proof -
  have k: "toStateKey (AsUri (uri untitled)) = ''untitled-1''"
    by (simp add: untitled_def toStateKey_def toLowerCase_def normalizePath_def
        toLowerCase_char_def char_of_def bit_Suc_0_iff)
  show ?thesis
    by (simp add: untitled_tracker_def tracker_after_def history_def sample_host_def
        onActiveTextEditorChanged_def new_DocumentTracker_simp lookup_def addCore_simp k handle_def)
qed

text \<open>
  C9, as stated, fails for a buffer that is not a local file: the untitled buffer is
  tracked since its editor became active, with the stored dirty flag false; the buffer is
  dirty and its editor active, and the change event leaves the tracker as it was: the
  stored flag stays false and nothing is dispatched.
\<close>

theorem first_change_of_untitled_counterexample:
  "lookup untitled_tracker (handle untitled) = Some 0
   \<and> \<not> dirty (heap untitled_tracker ! 0)
   \<and> isDirty (e_document untitled_changed)
   \<and> isActiveDocument (Some editorU) (e_document untitled_changed)
   \<and> immediates untitled_tracker = []
   \<and> onTextDocumentChanged 0 (Some editorU) untitled_changed untitled_tracker = untitled_tracker"
  by (simp add: untitled_tracker_simp lookup_def new_TrackedDocument_def isActiveDocument_def
      onTextDocumentChanged_def DocumentSchemes_File_def)

text \<open>
  C9, amended. \<open>addCore\<close> stores a tracked document whose dirty flag is false whatever
  the buffer's flag is, and \<open>add\<close>, the activation of an untracked text editor and the
  save of the active untracked document create theirs by \<open>addCore\<close>. Consequently, in
  every history of the tracker, as long as no change event has reported a buffer dirty
  to the handler, the stored flag of its tracked document (found in the map, or created
  by the handler) is false. The first change event that reports a local file dirty
  therefore fails the dirty-unchanged guard: it sets the stored flag and clears the
  force flag, and if the document is the active editor's it queues the dirty-state
  event as an immediate; when the immediates run with that editor still active, the
  callback is suspended at its \<^verbatim>\<open>await\<close>, and when it resumes with the document's
  initialization succeeding, the event is fired. A change event on a buffer that is not
  a local file leaves the tracker as it was.
\<close>

theorem first_change_of_dirty_file:
  fixes tr trc :: "'T DocumentTracker"
  assumes reachable: "tr = tracker_after h delayAfterEdit acts"
    and first: "\<not> list_ex (reports_dirty (e_document e)) acts"
    and entry: "(case lookup tr (handle (e_document e)) of
                   Some a \<Rightarrow> (a, tr) | None \<Rightarrow> addCore (e_document e) tr) = (a, tr1)"
  shows
  "lookup (snd (addCore d trc)) (handle d) = Some (fst (addCore d trc))
   \<and> \<not> dirty (heap (snd (addCore d trc)) ! fst (addCore d trc))
   \<and> add_step opn loads (Called (IdDocument d)) trc = (Added (fst (addCore d trc)), snd (addCore d trc))
   \<and> add_step opn loads (Opened d) trc = (Added (fst (addCore d trc)), snd (addCore d trc))
   \<and> (lookup trc (handle (editor_document edc)) = None \<and> isTextEditor edc \<longrightarrow>
        onActiveTextEditorChanged isTextEditor (Some edc) trc = snd (addCore (editor_document edc) trc))
   \<and> (lookup trc (handle d) = None \<and> isActiveDocument actc d \<longrightarrow>
        onTextDocumentSaved actc d trc = snd (addCore d trc))
   \<and> (lookup tr (handle (e_document e)) = None \<longrightarrow> (a, tr1) = addCore (e_document e) tr)
   \<and> a < length (heap tr1) \<and> \<not> dirty (heap tr1 ! a)
   \<and> (scheme (uri (e_document e)) \<noteq> DocumentSchemes_File \<longrightarrow>
        onTextDocumentChanged now act e tr = tr)
   \<and> (scheme (uri (e_document e)) = DocumentSchemes_File \<and> isDirty (e_document e) \<longrightarrow>
        dirty (heap (onTextDocumentChanged now act e tr) ! a)
        \<and> \<not> forceDirtyStateChangeOnNextDocumentChange (heap (onTextDocumentChanged now act e tr) ! a)
        \<and> (\<forall>ed. act = Some ed \<and> same_document (editor_document ed) (e_document e) \<longrightarrow>
              immediates (onTextDocumentChanged now act e tr)
                = immediates tr @ [\<lparr> ds_editor = ed, ds_document = a, ds_dirty = True \<rparr>]
              \<and> (\<exists>ks. awaiting (runImmediates (Some ed) (onTextDocumentChanged now act e tr))
                        = ks @ [DirtyStateAwaited \<lparr> ds_editor = ed, ds_document = a, ds_dirty = True \<rparr>]
                    \<and> (loads (document (heap tr1 ! a)) \<longrightarrow>
                         fired (continuationResumed loads (length ks)
                                  (runImmediates (Some ed) (onTextDocumentChanged now act e tr)))
                           = fired tr @ [DidChangeDirtyState
                                           \<lparr> ds_editor = ed, ds_document = a, ds_dirty = True \<rparr>]))))"
proof -
  let ?tr' = "onTextDocumentChanged now act e tr"
  have inv: "tracker_inv tr"
  proof -
    have "tracker_inv (tracker_after h delayAfterEdit acts :: 'T DocumentTracker)"
      by (rule history_inv)
    then show ?thesis using reachable by simp
  qed
  have dinv: "dirty_inv acts tr"
  proof -
    have "dirty_inv acts (tracker_after h delayAfterEdit acts :: 'T DocumentTracker)"
      by (rule history_dirty_inv)
    then show ?thesis using reachable by simp
  qed
  have created: "lookup (snd (addCore d trc)) (handle d) = Some (fst (addCore d trc))"
    "\<not> dirty (heap (snd (addCore d trc)) ! fst (addCore d trc))"
    "add_step opn loads (Called (IdDocument d)) trc = (Added (fst (addCore d trc)), snd (addCore d trc))"
    "add_step opn loads (Opened d) trc = (Added (fst (addCore d trc)), snd (addCore d trc))"
    by (simp_all add: lookup_addCore new_TrackedDocument_def add_addCore_def split_beta)
  have paths: "lookup trc (handle (editor_document edc)) = None \<and> isTextEditor edc \<longrightarrow>
        onActiveTextEditorChanged isTextEditor (Some edc) trc = snd (addCore (editor_document edc) trc)"
    "lookup trc (handle d) = None \<and> isActiveDocument actc d \<longrightarrow>
        onTextDocumentSaved actc d trc = snd (addCore d trc)"
    "lookup tr (handle (e_document e)) = None \<longrightarrow> (a, tr1) = addCore (e_document e) tr"
    using entry by (auto simp add: onActiveTextEditorChanged_def onTextDocumentSaved_def)
  have stored: "a < length (heap tr1)"
    by (rule entry_stored [OF inv entry])
  have initial: "\<not> dirty (heap tr1 ! a)"
  proof
    assume set: "dirty (heap tr1 ! a)"
    have same: "same_document (e_document e) (document (heap tr1 ! a))"
      by (rule entry_document [OF inv entry])
    have "flags tr1 = flags tr \<or> flags tr1 = flags tr @ [(e_document e, False)]"
      using entry by (auto simp add: flags_addCore [symmetric] split: option.splits)
    then have "dirty_inv acts tr1"
      using dinv by (auto simp add: dirty_inv_iff)
    moreover have "(document (heap tr1 ! a), dirty (heap tr1 ! a)) \<in> set (flags tr1)"
      using stored unfolding flags_def by (simp add: image_iff) (metis nth_mem)
    ultimately have "list_ex (reports_dirty (document (heap tr1 ! a))) acts"
      using set by (auto simp add: dirty_inv_iff)
    then obtain x where x: "x \<in> set acts" "reports_dirty (document (heap tr1 ! a)) x"
      by (auto simp add: list_ex_iff)
    from reports_dirty_same [OF same x(2)] x(1) first
    show False by (auto simp add: list_ex_iff)
  qed
  have other: "?tr' = tr" if "scheme (uri (e_document e)) \<noteq> DocumentSchemes_File"
    using that by (simp add: onTextDocumentChanged_def)
  have changed:
    "dirty (heap ?tr' ! a) \<and> \<not> forceDirtyStateChangeOnNextDocumentChange (heap ?tr' ! a)
     \<and> (\<forall>ed. act = Some ed \<and> same_document (editor_document ed) (e_document e) \<longrightarrow>
           immediates ?tr' = immediates tr @ [\<lparr> ds_editor = ed, ds_document = a, ds_dirty = True \<rparr>]
           \<and> (\<exists>ks. awaiting (runImmediates (Some ed) ?tr')
                     = ks @ [DirtyStateAwaited \<lparr> ds_editor = ed, ds_document = a, ds_dirty = True \<rparr>]
                 \<and> (loads (document (heap tr1 ! a)) \<longrightarrow>
                      fired (continuationResumed loads (length ks) (runImmediates (Some ed) ?tr'))
                        = fired tr @ [DidChangeDirtyState
                                        \<lparr> ds_editor = ed, ds_document = a, ds_dirty = True \<rparr>])))"
    if local_file: "scheme (uri (e_document e)) = DocumentSchemes_File"
      and buffer_dirty: "isDirty (e_document e)"
  proof -
    note fst = change_event_first_dirty [OF local_file entry stored initial buffer_dirty]
    have flags: "dirty (heap ?tr' ! a)" "\<not> forceDirtyStateChangeOnNextDocumentChange (heap ?tr' ! a)"
      by (rule fst(1), rule fst(2))
    have docs: "a < length (heap ?tr')" "document (heap ?tr' ! a) = document (heap tr1 ! a)"
      using map_document_nth [OF change_documents [OF local_file entry, of now act] stored]
      by simp_all
    have dispatched:
      "immediates ?tr' = immediates tr @ [\<lparr> ds_editor = ed, ds_document = a, ds_dirty = True \<rparr>]
       \<and> (\<exists>ks. awaiting (runImmediates (Some ed) ?tr')
                 = ks @ [DirtyStateAwaited \<lparr> ds_editor = ed, ds_document = a, ds_dirty = True \<rparr>]
             \<and> (loads (document (heap tr1 ! a)) \<longrightarrow>
                  fired (continuationResumed loads (length ks) (runImmediates (Some ed) ?tr'))
                    = fired tr @ [DidChangeDirtyState
                                    \<lparr> ds_editor = ed, ds_document = a, ds_dirty = True \<rparr>]))"
      if active: "act = Some ed" "same_document (editor_document ed) (e_document e)" for ed
    proof -
      let ?ev = "\<lparr> ds_editor = ed, ds_document = a, ds_dirty = True \<rparr>"
      have queued: "immediates ?tr' = immediates tr @ [?ev]"
        using active by (rule fst(3))
      from runImmediates_last [OF queued, of "Some ed"]
      obtain ks where ks: "awaiting (runImmediates (Some ed) ?tr') = ks @ [DirtyStateAwaited ?ev]"
        by (auto simp add: active_is_def same_editor_def)
      have "fired (continuationResumed loads (length ks) (runImmediates (Some ed) ?tr'))
              = fired tr @ [DidChangeDirtyState ?ev]"
        if "loads (document (heap tr1 ! a))"
        using dirty_state_resumed [of "runImmediates (Some ed) ?tr'" ks ?ev "[]" loads]
          ks docs that change_event_frame(3) [of now act e tr]
        by simp
      then show ?thesis using queued ks by blast
    qed
    show ?thesis using flags dispatched by blast
  qed
  show ?thesis
    using created paths stored initial other changed by blast
qed

lemma activated_tracker_simp:
  "activated_tracker =
     \<lparr> dirtyIdleTriggerDelay = 5000, subscribed = True,
       documentMap = [(handle fileA, 0), (ByKey ''/work/app.ts'', 0)],
       heap = [new_TrackedDocument fileA ''/work/app.ts'' False],
       dirtyIdleTriggeredDebounced = None, dirtyStateChangedDebounced = None,
       immediates = [], fired = [], commandContext = [],
       detachedIdleDebounces = [], awaiting = [] \<rparr>"
  by (simp add: activated_tracker_def tracker_after_def history_def sample_host_def
      onActiveTextEditorChanged_def new_DocumentTracker_simp lookup_def addCore_simp
      toStateKey_fileA handle_def)

theorem first_change_of_dirty_file_witness:
  "activated_tracker = tracker_after sample_host 5000 [ActiveTextEditorChanged (Some editorA)]
   \<and> \<not> list_ex (reports_dirty (e_document fileA_changed)) [ActiveTextEditorChanged (Some editorA)]
   \<and> lookup activated_tracker (handle fileA) = Some 0
   \<and> scheme (uri (e_document fileA_changed)) = DocumentSchemes_File
   \<and> isDirty (e_document fileA_changed)
   \<and> same_document (editor_document editorA) (e_document fileA_changed)
   \<and> \<not> dirty (heap activated_tracker ! 0)
   \<and> dirty (heap (onTextDocumentChanged 0 (Some editorA) fileA_changed activated_tracker) ! 0)
   \<and> immediates (onTextDocumentChanged 0 (Some editorA) fileA_changed activated_tracker)
       = [\<lparr> ds_editor = editorA, ds_document = 0, ds_dirty = True \<rparr>]
   \<and> (\<exists>ks. awaiting (runImmediates (Some editorA)
                        (onTextDocumentChanged 0 (Some editorA) fileA_changed activated_tracker))
              = ks @ [DirtyStateAwaited \<lparr> ds_editor = editorA, ds_document = 0, ds_dirty = True \<rparr>]
          \<and> fired (continuationResumed (\<lambda>d. True) (length ks)
                      (runImmediates (Some editorA)
                         (onTextDocumentChanged 0 (Some editorA) fileA_changed activated_tracker)))
              = [DidChangeDirtyState \<lparr> ds_editor = editorA, ds_document = 0, ds_dirty = True \<rparr>])
   \<and> untitled_tracker = tracker_after sample_host 5000 [ActiveTextEditorChanged (Some editorU)]
   \<and> \<not> list_ex (reports_dirty (e_document untitled_changed)) [ActiveTextEditorChanged (Some editorU)]
   \<and> scheme (uri (e_document untitled_changed)) \<noteq> DocumentSchemes_File
   \<and> onTextDocumentChanged 0 (Some editorU) untitled_changed untitled_tracker = untitled_tracker"
proof -
  have r: "activated_tracker = tracker_after sample_host 5000 [ActiveTextEditorChanged (Some editorA)]"
    "untitled_tracker = tracker_after sample_host 5000 [ActiveTextEditorChanged (Some editorU)]"
    by (simp_all add: activated_tracker_def untitled_tracker_def)
  have n: "\<not> list_ex (reports_dirty (e_document fileA_changed)) [ActiveTextEditorChanged (Some editorA)]"
    "\<not> list_ex (reports_dirty (e_document untitled_changed)) [ActiveTextEditorChanged (Some editorU)]"
    by simp_all
  have t: "(case lookup activated_tracker (handle (e_document fileA_changed)) of
              Some a \<Rightarrow> (a, activated_tracker)
            | None \<Rightarrow> addCore (e_document fileA_changed) activated_tracker)
           = (0, activated_tracker)"
    "lookup activated_tracker (handle fileA) = Some 0"
    "immediates activated_tracker = []" "fired activated_tracker = []"
    "(\<lambda>d. True) (document (heap activated_tracker ! 0))"
    by (simp_all add: activated_tracker_simp lookup_def)
  have u: "(case lookup untitled_tracker (handle (e_document untitled_changed)) of
              Some a \<Rightarrow> (a, untitled_tracker)
            | None \<Rightarrow> addCore (e_document untitled_changed) untitled_tracker)
           = (0, untitled_tracker)"
    by (simp add: untitled_tracker_simp lookup_def)
  have f: "scheme (uri (e_document fileA_changed)) = DocumentSchemes_File"
    "isDirty (e_document fileA_changed)"
    "same_document (editor_document editorA) (e_document fileA_changed)"
    "scheme (uri (e_document untitled_changed)) \<noteq> DocumentSchemes_File"
    by (simp_all add: DocumentSchemes_File_def)
  note T = first_change_of_dirty_file
             [OF r(1) n(1) t(1), where now = 0 and act = "Some editorA" and loads = "\<lambda>d. True"
                and d = fileA and trc = activated_tracker and opn = "\<lambda>i. Inl OpenFailed"
                and edc = editorA and isTextEditor = "\<lambda>ed. True" and actc = None]
  from T have 1: "\<not> dirty (heap activated_tracker ! 0)" by blast
  from T f(1,2) have 2: "dirty (heap (onTextDocumentChanged 0 (Some editorA) fileA_changed activated_tracker) ! 0)"
    by blast
  from T f(1,2,3) t(3)
  have 3: "immediates (onTextDocumentChanged 0 (Some editorA) fileA_changed activated_tracker)
       = [\<lparr> ds_editor = editorA, ds_document = 0, ds_dirty = True \<rparr>]"
    by simp
  from T f(1,2,3) t(4,5)
  have 4: "\<exists>ks. awaiting (runImmediates (Some editorA)
                        (onTextDocumentChanged 0 (Some editorA) fileA_changed activated_tracker))
              = ks @ [DirtyStateAwaited \<lparr> ds_editor = editorA, ds_document = 0, ds_dirty = True \<rparr>]
          \<and> fired (continuationResumed (\<lambda>d. True) (length ks)
                      (runImmediates (Some editorA)
                         (onTextDocumentChanged 0 (Some editorA) fileA_changed activated_tracker)))
              = [DidChangeDirtyState \<lparr> ds_editor = editorA, ds_document = 0, ds_dirty = True \<rparr>]"
    by simp
  from first_change_of_dirty_file
         [OF r(2) n(2) u, where now = 0 and act = "Some editorU" and loads = "\<lambda>d. True"
            and d = fileA and trc = activated_tracker and opn = "\<lambda>i. Inl OpenFailed"
            and edc = editorA and isTextEditor = "\<lambda>ed. True" and actc = None] f(4)
  have 5: "onTextDocumentChanged 0 (Some editorU) untitled_changed untitled_tracker = untitled_tracker"
    by blast
  show ?thesis using r n t(2) f 1 2 3 4 5 by simp
qed

section \<open>The two keys of a tracked document\<close>

lemma keys_of_iff:
  "distinct (map fst (documentMap tr)) \<Longrightarrow> k \<in> set (keys_of tr a) \<longleftrightarrow> lookup tr k = Some a"
  by (force simp add: keys_of_def lookup_def)

lemma two_files:
  "two_files_tracker =
     \<lparr> dirtyIdleTriggerDelay = 5000, subscribed = True,
       documentMap = [(handle fileA, 0), (ByKey ''/work/app.ts'', 1), (handle fileB, 1)],
       heap = [(new_TrackedDocument fileA ''/work/app.ts'' False)
                 \<lparr> dirty := True, resetReason := Some Document \<rparr>,
               (new_TrackedDocument fileB ''/work/app.ts'' False)
                 \<lparr> dirty := True, resetReason := Some Document \<rparr>],
       dirtyIdleTriggeredDebounced =
         Some \<lparr> wait = 5000,
                pendingCall = Some (5001, \<lparr> di_editor = Some editorA, di_document = 1 \<rparr>) \<rparr>,
       dirtyStateChangedDebounced = None,
       immediates = [\<lparr> ds_editor = editorA, ds_document = 0, ds_dirty = True \<rparr>],
       fired = [], commandContext = [],
       detachedIdleDebounces = [], awaiting = [] \<rparr>"
proof -
  have "two_files_tracker = onTextDocumentChanged 1 (Some editorA) fileB_changed edited_tracker"
    by (simp add: two_files_tracker_def tracker_after_def history_def edited_tracker_def)
  also have "\<dots> = \<lparr> dirtyIdleTriggerDelay = 5000, subscribed = True,
       documentMap = [(handle fileA, 0), (ByKey ''/work/app.ts'', 1), (handle fileB, 1)],
       heap = [(new_TrackedDocument fileA ''/work/app.ts'' False)
                 \<lparr> dirty := True, resetReason := Some Document \<rparr>,
               (new_TrackedDocument fileB ''/work/app.ts'' False)
                 \<lparr> dirty := True, resetReason := Some Document \<rparr>],
       dirtyIdleTriggeredDebounced =
         Some \<lparr> wait = 5000,
                pendingCall = Some (5001, \<lparr> di_editor = Some editorA, di_document = 1 \<rparr>) \<rparr>,
       dirtyStateChangedDebounced = None,
       immediates = [\<lparr> ds_editor = editorA, ds_document = 0, ds_dirty = True \<rparr>],
       fired = [], commandContext = [],
       detachedIdleDebounces = [], awaiting = [] \<rparr>"
    by (simp add: first_edit onTextDocumentChanged_def addCore_simp
        lookup_def toStateKey_fileB handle_def on_doc_def reset_def new_TrackedDocument_def
        resetForceDirtyStateChangeOnNextDocumentChange_def
        invoke_def DocumentSchemes_File_def Let_def same_document_def)
  finally show ?thesis .
qed

text \<open>
  C2, as stated, fails when two open buffers have the same state key. \<open>fileA\<close> and
  \<open>fileB\<close> are two local files whose paths differ only in case; after both have been
  edited, the tracked document of \<open>fileA\<close> is in the map, not disposed, and reachable
  under its buffer only; after \<open>fileA\<close> is closed, \<open>fileB\<close> is still tracked under its
  buffer, and its own path and URI are no longer known to \<open>has\<close>.
\<close>

theorem shared_state_key_counterexample:
  "lookup two_files_tracker (handle fileA) = Some 0
   \<and> \<not> disposed (heap two_files_tracker ! 0)
   \<and> keys_of two_files_tracker 0 = [handle fileA]
   \<and> has (IdDocument fileB) (onTextDocumentClosed fileA two_files_tracker)
   \<and> \<not> has (IdUri (uri fileB)) (onTextDocumentClosed fileA two_files_tracker)
   \<and> \<not> has (IdFileName (fsPath (uri fileB))) (onTextDocumentClosed fileA two_files_tracker)"
proof -
  have k: "toStateKey (AsFileName (fsPath (uri fileB))) = ''/work/app.ts''"
    using toStateKey_fileB by (simp add: toStateKey_def)
  have h: "handle fileA \<noteq> handle fileB" by (simp add: handle_def)
  show ?thesis
    using h by (simp add: two_files lookup_def keys_of_def new_TrackedDocument_def
      onTextDocumentClosed_def on_doc_def Let_def TrackedDocument_dispose_def
      toStateKey_fileB k handle_def)
qed


lemma cache_ok_distinct: "cache_ok tr \<Longrightarrow> distinct (map fst (documentMap tr))"
  by (simp add: cache_ok_def)

lemma keys_of_added:
  assumes "cache_ok tr"
  shows "set (keys_of (snd (addCore d tr)) (length (heap tr)))
           = {handle d, ByKey (toStateKey (AsUri (uri d)))}"
proof -
  have old: "lookup tr k \<noteq> Some (length (heap tr))" for k
    using cache_okD [OF assms, of k "length (heap tr)"] by (auto simp add: entry_ok_def)
  have "k \<in> set (keys_of (snd (addCore d tr)) (length (heap tr)))
          \<longleftrightarrow> k = handle d \<or> k = ByKey (toStateKey (AsUri (uri d)))" for k
    using keys_of_iff [OF cache_ok_distinct [OF cache_ok_addCore [OF assms, of d]]] old [of k]
    by (simp add: lookup_addCore)
  then show ?thesis by blast
qed

lemma keys_of_closed:
  assumes "cache_ok tr" "lookup tr (handle d) = Some a"
  shows "keys_of (onTextDocumentClosed d tr) a = []"
proof -
  have "k \<notin> set (keys_of (onTextDocumentClosed d tr) a)" for k
    using keys_of_iff [OF cache_ok_distinct [OF cache_ok_closed [OF assms(1), of d]], of k a]
      closed_unreachable(2) [OF assms, of k]
    by simp
  then show ?thesis by (cases "keys_of (onTextDocumentClosed d tr) a") auto
qed

text \<open>
  C2, amended. In every history of the tracker: every tracked document of the map is in
  the store, is not disposed, is reachable under its buffer, is reachable under no key
  other than its buffer and its state key, and its key is the state key of its buffer's
  URI. \<open>addCore\<close> stores the new tracked document under exactly these two keys. When a
  tracked buffer is closed, its tracked document is disposed and both keys are deleted
  in that step: \<open>has\<close> is false for the buffer, for its URI and for every file name or
  URI with the same state key, and no key leads to the disposed tracked document. (A
  tracked document can lose its state-key entry to another buffer with the same state
  key, as in the counterexample; it stays reachable under its buffer.)
\<close>

theorem cache_keys_in_every_history:
  fixes tr :: "'T DocumentTracker"
  assumes reachable: "tr = tracker_after h delayAfterEdit acts"
  shows
  "(\<forall>k a. lookup tr k = Some a \<longrightarrow>
       a < length (heap tr) \<and> \<not> disposed (heap tr ! a)
       \<and> lookup tr (handle (document (heap tr ! a))) = Some a
       \<and> (k = handle (document (heap tr ! a)) \<or> k = ByKey (key (heap tr ! a)))
       \<and> key (heap tr ! a) = toStateKey (AsUri (uri (document (heap tr ! a)))))
   \<and> lookup (snd (addCore d tr)) (handle d) = Some (fst (addCore d tr))
   \<and> lookup (snd (addCore d tr)) (ByKey (toStateKey (AsUri (uri d)))) = Some (fst (addCore d tr))
   \<and> set (keys_of (snd (addCore d tr)) (fst (addCore d tr)))
       = {handle d, ByKey (toStateKey (AsUri (uri d)))}
   \<and> (\<forall>a. lookup tr (handle d) = Some a \<longrightarrow>
         disposed (heap (onTextDocumentClosed d tr) ! a)
         \<and> keys_of (onTextDocumentClosed d tr) a = []
         \<and> \<not> has (IdDocument d) (onTextDocumentClosed d tr)
         \<and> \<not> has (IdUri (uri d)) (onTextDocumentClosed d tr)
         \<and> (\<forall>s. toStateKey (AsFileName s) = toStateKey (AsUri (uri d)) \<longrightarrow>
                \<not> has (IdFileName s) (onTextDocumentClosed d tr))
         \<and> (\<forall>u. toStateKey (AsUri u) = toStateKey (AsUri (uri d)) \<longrightarrow>
                \<not> has (IdUri u) (onTextDocumentClosed d tr)))"
proof -
  have "tracker_inv (tracker_after h delayAfterEdit acts :: 'T DocumentTracker)"
    by (rule history_inv)
  then have ok: "cache_ok tr"
    using reachable by (simp add: tracker_inv_def)
  have inv: "a < length (heap tr) \<and> \<not> disposed (heap tr ! a)
       \<and> lookup tr (handle (document (heap tr ! a))) = Some a
       \<and> (k = handle (document (heap tr ! a)) \<or> k = ByKey (key (heap tr ! a)))
       \<and> key (heap tr ! a) = toStateKey (AsUri (uri (document (heap tr ! a))))"
    if "lookup tr k = Some a" for k a
    using cache_ok_reachable [OF ok that] cache_okD [OF ok that] by (simp add: entry_ok_def)
  have added: "lookup (snd (addCore d tr)) (handle d) = Some (fst (addCore d tr))"
    "lookup (snd (addCore d tr)) (ByKey (toStateKey (AsUri (uri d)))) = Some (fst (addCore d tr))"
    "set (keys_of (snd (addCore d tr)) (fst (addCore d tr)))
       = {handle d, ByKey (toStateKey (AsUri (uri d)))}"
    using keys_of_added [OF ok, of d] by (simp_all add: lookup_addCore)
  have closed: "disposed (heap (onTextDocumentClosed d tr) ! a)
         \<and> keys_of (onTextDocumentClosed d tr) a = []
         \<and> \<not> has (IdDocument d) (onTextDocumentClosed d tr)
         \<and> \<not> has (IdUri (uri d)) (onTextDocumentClosed d tr)
         \<and> (\<forall>s. toStateKey (AsFileName s) = toStateKey (AsUri (uri d)) \<longrightarrow>
                \<not> has (IdFileName s) (onTextDocumentClosed d tr))
         \<and> (\<forall>u. toStateKey (AsUri u) = toStateKey (AsUri (uri d)) \<longrightarrow>
                \<not> has (IdUri u) (onTextDocumentClosed d tr))"
    if "lookup tr (handle d) = Some a" for a
    using closed_unreachable [OF ok that] keys_of_closed [OF ok that] by simp
  show ?thesis using inv added closed by blast
qed


theorem cache_keys_in_every_history_witness:
  "edited_tracker = tracker_after sample_host 5000 [TextDocumentChanged 0 (Some editorA) fileA_changed]
   \<and> lookup edited_tracker (handle fileA) = Some 0
   \<and> lookup edited_tracker (ByKey ''/work/app.ts'') = Some 0
   \<and> has (IdFileName ''/work/app.ts'') edited_tracker
   \<and> toStateKey (AsFileName ''/work/app.ts'') = toStateKey (AsUri (uri fileA))
   \<and> key (heap edited_tracker ! 0) = toStateKey (AsUri (uri (document (heap edited_tracker ! 0))))
   \<and> disposed (heap (onTextDocumentClosed fileA edited_tracker) ! 0)
   \<and> keys_of (onTextDocumentClosed fileA edited_tracker) 0 = []
   \<and> \<not> has (IdDocument fileA) (onTextDocumentClosed fileA edited_tracker)
   \<and> \<not> has (IdFileName ''/work/app.ts'') (onTextDocumentClosed fileA edited_tracker)"
proof -
  have r: "edited_tracker
             = tracker_after sample_host 5000 [TextDocumentChanged 0 (Some editorA) fileA_changed]"
    by (simp add: edited_tracker_def tracker_after_def history_def)
  have k: "toStateKey (AsFileName ''/work/app.ts'') = toStateKey (AsUri (uri fileA))"
    using toStateKey_fileB toStateKey_fileA by (simp add: toStateKey_def fileB_def)
  have l: "lookup edited_tracker (handle fileA) = Some 0"
    "lookup edited_tracker (ByKey ''/work/app.ts'') = Some 0"
    "has (IdFileName ''/work/app.ts'') edited_tracker"
    by (simp_all add: first_edit lookup_def k toStateKey_fileA handle_def)
  note t = cache_keys_in_every_history [OF r, of fileA]
  from t l(2) have 1: "key (heap edited_tracker ! 0)
                        = toStateKey (AsUri (uri (document (heap edited_tracker ! 0))))"
    by blast
  from t l(1) k have 2: "disposed (heap (onTextDocumentClosed fileA edited_tracker) ! 0)"
    "keys_of (onTextDocumentClosed fileA edited_tracker) 0 = []"
    "\<not> has (IdDocument fileA) (onTextDocumentClosed fileA edited_tracker)"
    "\<not> has (IdFileName ''/work/app.ts'') (onTextDocumentClosed fileA edited_tracker)"
    by blast+
  show ?thesis using r k l 1 2 by simp
qed

section \<open>Calls of add for one identity\<close>

text \<open>A segment of such a call either runs \<open>addCore\<close> on the buffer or leaves the cache alone.\<close>

lemma ensureInitialized_Inl:
  "ensureInitialized loads td = Inl err \<Longrightarrow> err = InitializationFailed"
  by (auto simp add: ensureInitialized_def split: if_splits)

lemma add_step_kinds:
  assumes res: "resolves_to opn ident d"
    and form: "c = Called ident \<or> c = Opened d \<or> c = Rejected InitializationFailed
                \<or> (\<exists>a. entry_of c = Some a)"
    and step: "add_step opn loads c tr = (c', tr')"
  shows "(entry_of c = None \<and> stage c < 2 \<and> c' = Added (length (heap tr))
           \<and> tr' = snd (addCore d tr))
         \<or> ((entry_of c' = entry_of c \<or> entry_of c' = None)
             \<and> (2 \<le> stage c' \<longleftrightarrow> 2 \<le> stage c)
             \<and> (c' = Called ident \<or> c' = Opened d \<or> c' = Rejected InitializationFailed
                 \<or> (\<exists>a. entry_of c' = Some a))
             \<and> documentMap tr' = documentMap tr \<and> length (heap tr') = length (heap tr)
             \<and> (\<forall>a. document (heap tr' ! a) = document (heap tr ! a)
                     \<and> key (heap tr' ! a) = key (heap tr ! a))
             \<and> tracker_inv tr' = tracker_inv tr)"
proof (cases c)
  case (Called ident')
  then have id: "ident' = ident" using form by auto
  show ?thesis
  proof (cases "identity_of ident")
    case (Inr d')
    then have "d' = d" using res by (simp add: resolves_to_def)
    then show ?thesis using Called id Inr step by (simp add: add_addCore_entry)
  next
    case (Inl i)
    then have "opn i = Inr d" using res by (simp add: resolves_to_def)
    then show ?thesis using Called id Inl step by auto
  qed
next
  case (Opened d')
  then have "d' = d" using form by auto
  then show ?thesis using Opened step by (simp add: add_addCore_entry)
next
  case (Added a)
  show ?thesis
  proof (cases "ensureInitialized loads (heap tr ! a)")
    case (Inl err)
    then show ?thesis using Added step ensureInitialized_Inl [OF Inl] by auto
  next
    case (Inr td)
    note same = ensureInitialized_Inr [OF Inr]
    have tr': "tr' = tr \<lparr> heap := (heap tr)[a := td] \<rparr>" "c' = Resolved a"
      using Added step Inr by auto
    have fields: "document (heap tr' ! b) = document (heap tr ! b)
                   \<and> key (heap tr' ! b) = key (heap tr ! b)" for b
    proof (cases "a < length (heap tr)")
      case True
      then show ?thesis using same by (cases "b = a") (simp_all add: tr')
    next
      case False
      then have "(heap tr)[a := td] = heap tr" by (simp add: list_update_beyond)
      then show ?thesis by (simp add: tr')
    qed
    have "cache_ok tr' = cache_ok tr"
      unfolding tr' using same by (intro cache_ok_heap_update) simp_all
    then have "tracker_inv tr' = tracker_inv tr"
      by (simp add: tracker_inv_def tr')
    then show ?thesis using Added tr' fields by simp
  qed
next
  case (Resolved a)
  then show ?thesis using step by auto
next
  case (Rejected err)
  then show ?thesis using step form by auto
qed


lemma filter_update_count:
  assumes "i < length cs"
  shows "length (filter P (cs[i := c])) + (if P (cs ! i) then 1 else 0)
           = length (filter P cs) + (if P c then 1 else 0)"
  using assms
proof (induction cs arbitrary: i)
  case Nil
  then show ?case by simp
next
  case (Cons x xs)
  then show ?case by (cases i) auto
qed

lemma adds_invD:
  assumes "adds_inv tr0 ident d cs tr"
  shows "tracker_inv tr" "calls_inv cs tr" "length (heap tr0) \<le> length (heap tr)"
    and "\<And>c. c \<in> set cs \<Longrightarrow> c = Called ident \<or> c = Opened d \<or> c = Rejected InitializationFailed
                     \<or> (\<exists>a. entry_of c = Some a \<and> length (heap tr0) \<le> a)"
    and "\<And>a. a < length (heap tr0) \<Longrightarrow>
           document (heap tr ! a) = document (heap tr0 ! a) \<and> key (heap tr ! a) = key (heap tr0 ! a)"
    and "\<And>a. length (heap tr0) \<le> a \<Longrightarrow> a < length (heap tr) \<Longrightarrow>
           document (heap tr ! a) = d \<and> key (heap tr ! a) = toStateKey (AsUri (uri d))"
    and "length (heap tr0) < length (heap tr) \<Longrightarrow>
           lookup tr (handle d) = Some (length (heap tr) - 1)
           \<and> lookup tr (ByKey (toStateKey (AsUri (uri d)))) = Some (length (heap tr) - 1)"
    and "\<not> length (heap tr0) < length (heap tr) \<Longrightarrow> documentMap tr = documentMap tr0"
    and "length (heap tr) = length (heap tr0) + length (filter (\<lambda>c. 2 \<le> stage c) cs)"
  using assms unfolding adds_inv_def by (simp_all split: if_splits)

lemma adds_invI:
  assumes "tracker_inv tr" "calls_inv cs tr"
    "length (heap tr) = length (heap tr0) + length (filter (\<lambda>c. 2 \<le> stage c) cs)"
    and "\<And>c. c \<in> set cs \<Longrightarrow> c = Called ident \<or> c = Opened d \<or> c = Rejected InitializationFailed
                     \<or> (\<exists>a. entry_of c = Some a \<and> length (heap tr0) \<le> a)"
    and "\<And>a. a < length (heap tr0) \<Longrightarrow>
           document (heap tr ! a) = document (heap tr0 ! a) \<and> key (heap tr ! a) = key (heap tr0 ! a)"
    and "\<And>a. length (heap tr0) \<le> a \<Longrightarrow> a < length (heap tr) \<Longrightarrow>
           document (heap tr ! a) = d \<and> key (heap tr ! a) = toStateKey (AsUri (uri d))"
    and "length (heap tr0) < length (heap tr) \<Longrightarrow>
           lookup tr (handle d) = Some (length (heap tr) - 1)
           \<and> lookup tr (ByKey (toStateKey (AsUri (uri d)))) = Some (length (heap tr) - 1)"
    and "\<not> length (heap tr0) < length (heap tr) \<Longrightarrow> documentMap tr = documentMap tr0"
  shows "adds_inv tr0 ident d cs tr"
  unfolding adds_inv_def using assms by (simp split: if_splits)

lemma adds_inv_step:
  assumes inv: "adds_inv tr0 ident d cs tr"
    and res: "resolves_to opn ident d"
    and i: "i < length cs"
    and step: "add_step opn loads (cs ! i) tr = (c', tr')"
  shows "adds_inv tr0 ident d (cs[i := c']) tr'"
proof -
  note K = adds_invD [OF inv]
  have ci: "cs ! i \<in> set cs" using i by simp
  have form: "cs ! i = Called ident \<or> cs ! i = Opened d \<or> cs ! i = Rejected InitializationFailed
                \<or> (\<exists>a. entry_of (cs ! i) = Some a)"
    using K(4) [OF ci] by blast
  note count = filter_update_count [OF i, of "\<lambda>c. 2 \<le> stage c" c']
  have calls: "calls_inv (cs[i := c']) tr'"
    by (rule calls_inv_step [OF K(2) i step])
  have members: "c = c' \<or> c \<in> set cs" if "c \<in> set (cs[i := c'])" for c
    using that set_update_subset_insert [of cs i c'] by auto
  from add_step_kinds [OF res form step] show ?thesis
  proof
    assume A: "entry_of (cs ! i) = None \<and> stage (cs ! i) < 2 \<and> c' = Added (length (heap tr))
                 \<and> tr' = snd (addCore d tr)"
    then have len: "length (heap tr') = Suc (length (heap tr))" by simp
    have nth: "heap tr' ! a = heap tr ! a" if "a < length (heap tr)" for a
      using that A by (simp add: nth_append)
    show ?thesis
    proof (rule adds_invI)
      show "tracker_inv tr'" using A K(1) by (simp add: tracker_inv_addCore)
      show "calls_inv (cs[i := c']) tr'" by (rule calls)
      show "length (heap tr') = length (heap tr0) + length (filter (\<lambda>c. 2 \<le> stage c) (cs[i := c']))"
        using K(9) len count A by simp
      show "c = Called ident \<or> c = Opened d \<or> c = Rejected InitializationFailed
              \<or> (\<exists>a. entry_of c = Some a \<and> length (heap tr0) \<le> a)"
        if "c \<in> set (cs[i := c'])" for c
        using members [OF that] A K(3) K(4) [of c] by auto
      show "document (heap tr' ! a) = document (heap tr0 ! a) \<and> key (heap tr' ! a) = key (heap tr0 ! a)"
        if "a < length (heap tr0)" for a
        using that K(3) K(5) [OF that] nth [of a] by simp
      show "document (heap tr' ! a) = d \<and> key (heap tr' ! a) = toStateKey (AsUri (uri d))"
        if "length (heap tr0) \<le> a" "a < length (heap tr')" for a
      proof (cases "a < length (heap tr)")
        case True
        then show ?thesis using K(6) [OF that(1) True] nth [OF True] by simp
      next
        case False
        then have "a = length (heap tr)" using that(2) len by simp
        then show ?thesis using A by (simp add: new_TrackedDocument_def)
      qed
      show "lookup tr' (handle d) = Some (length (heap tr') - 1)
           \<and> lookup tr' (ByKey (toStateKey (AsUri (uri d)))) = Some (length (heap tr') - 1)"
        using A by (simp add: lookup_addCore)
      show "documentMap tr' = documentMap tr0" if "\<not> length (heap tr0) < length (heap tr')"
        using that K(3) len by simp
    qed
  next
    assume B: "(entry_of c' = entry_of (cs ! i) \<or> entry_of c' = None)
             \<and> (2 \<le> stage c' \<longleftrightarrow> 2 \<le> stage (cs ! i))
             \<and> (c' = Called ident \<or> c' = Opened d \<or> c' = Rejected InitializationFailed
                 \<or> (\<exists>a. entry_of c' = Some a))
             \<and> documentMap tr' = documentMap tr \<and> length (heap tr') = length (heap tr)
             \<and> (\<forall>a. document (heap tr' ! a) = document (heap tr ! a)
                     \<and> key (heap tr' ! a) = key (heap tr ! a))
             \<and> tracker_inv tr' = tracker_inv tr"
    then have lk: "lookup tr' = lookup tr" by (simp add: lookup_def fun_eq_iff)
    have c'form: "c' = Called ident \<or> c' = Opened d \<or> c' = Rejected InitializationFailed
              \<or> (\<exists>a. entry_of c' = Some a \<and> length (heap tr0) \<le> a)"
    proof (cases "entry_of c'")
      case None
      then show ?thesis using B by auto
    next
      case (Some a)
      then have "entry_of (cs ! i) = Some a" using B by auto
      then have "length (heap tr0) \<le> a" using K(4) [OF ci] by auto
      then show ?thesis using Some by simp
    qed
    show ?thesis
    proof (rule adds_invI)
      show "tracker_inv tr'" using B K(1) by simp
      show "calls_inv (cs[i := c']) tr'" by (rule calls)
      show "length (heap tr') = length (heap tr0) + length (filter (\<lambda>c. 2 \<le> stage c) (cs[i := c']))"
        using K(9) count B by simp
      show "c = Called ident \<or> c = Opened d \<or> c = Rejected InitializationFailed
              \<or> (\<exists>a. entry_of c = Some a \<and> length (heap tr0) \<le> a)"
        if "c \<in> set (cs[i := c'])" for c
        using members [OF that] c'form K(4) [of c] by blast
      show "document (heap tr' ! a) = document (heap tr0 ! a) \<and> key (heap tr' ! a) = key (heap tr0 ! a)"
        if "a < length (heap tr0)" for a
        using K(5) [OF that] B by simp
      show "document (heap tr' ! a) = d \<and> key (heap tr' ! a) = toStateKey (AsUri (uri d))"
        if "length (heap tr0) \<le> a" "a < length (heap tr')" for a
        using K(6) [OF that(1)] that(2) B by simp
      show "lookup tr' (handle d) = Some (length (heap tr') - 1)
           \<and> lookup tr' (ByKey (toStateKey (AsUri (uri d)))) = Some (length (heap tr') - 1)"
        if "length (heap tr0) < length (heap tr')"
        using K(7) that B lk by simp
      show "documentMap tr' = documentMap tr0" if "\<not> length (heap tr0) < length (heap tr')"
        using K(8) that B by simp
    qed
  qed
qed

lemma run_adds_inv:
  assumes "adds_inv tr0 ident d cs tr" "resolves_to opn ident d"
    and "run_adds opn loads sched (cs, tr) = (cs', tr')"
  shows "adds_inv tr0 ident d cs' tr' \<and> length cs' = length cs"
  using assms
proof (induction sched arbitrary: cs tr)
  case Nil
  then show ?case by simp
next
  case (Cons i sched)
  show ?case
  proof (cases "i < length cs")
    case False
    then show ?thesis using Cons by simp
  next
    case True
    obtain c1 tr1 where st: "add_step opn loads (cs ! i) tr = (c1, tr1)" by fastforce
    from adds_inv_step [OF Cons.prems(1,2) True st]
    have 1: "adds_inv tr0 ident d (cs[i := c1]) tr1" .
    have 2: "run_adds opn loads sched (cs[i := c1], tr1) = (cs', tr')"
      using Cons.prems(3) True st by simp
    from Cons.IH [OF 1 Cons.prems(2) 2] show ?thesis by simp
  qed
qed


lemma adds_inv_start:
  assumes "tracker_inv tr0"
  shows "adds_inv tr0 ident d (replicate n (Called ident)) tr0"
proof (rule adds_invI)
  show "calls_inv (replicate n (Called ident)) tr0"
    by (rule calls_invI) simp_all
qed (use assms in simp_all)

text \<open>A tracked document of \<open>d\<close> that is not the one \<open>d\<close>'s keys lead to is unreachable.\<close>

lemma replaced_unreachable:
  assumes ok: "cache_ok tr"
    and cur: "lookup tr (handle d) = Some l" "lookup tr (ByKey (toStateKey (AsUri (uri d)))) = Some l"
    and b: "handle (document (heap tr ! b)) = handle d" "key (heap tr ! b) = toStateKey (AsUri (uri d))"
      "b \<noteq> l"
  shows "keys_of tr b = []"
proof -
  have "k \<notin> set (keys_of tr b)" for k
  proof
    assume "k \<in> set (keys_of tr b)"
    then have l: "lookup tr k = Some b"
      using keys_of_iff [OF cache_ok_distinct [OF ok]] by simp
    from cache_ok_reachable(2) [OF ok l] b(1,2) cur have "lookup tr k = Some l" by auto
    with l b(3) show False by simp
  qed
  then show ?thesis by (cases "keys_of tr b") auto
qed

text \<open>
  C1, as stated, fails: \<open>add\<close> does not reuse an existing tracked document. On a new
  tracker the first call of \<open>add\<close> for \<open>fileA\<close> resolves with the entry at address 0;
  \<open>fileA\<close> is then tracked, and the second call resolves with a new entry at address 1:
  the store holds two tracked documents for the one buffer.
\<close>

theorem add_twice_counterexample:
  "fst (add (host_openTextDocument sample_host) (host_loads sample_host) (IdDocument fileA)
          (new_DocumentTracker 5000 :: unit DocumentTracker)) = Resolved 0
   \<and> has (IdDocument fileA)
        (snd (add (host_openTextDocument sample_host) (host_loads sample_host) (IdDocument fileA)
                (new_DocumentTracker 5000 :: unit DocumentTracker)))
   \<and> fst (add (host_openTextDocument sample_host) (host_loads sample_host) (IdDocument fileA)
            (snd (add (host_openTextDocument sample_host) (host_loads sample_host) (IdDocument fileA)
                    (new_DocumentTracker 5000 :: unit DocumentTracker)))) = Resolved 1
   \<and> length (heap (snd (add (host_openTextDocument sample_host) (host_loads sample_host)
                          (IdDocument fileA)
            (snd (add (host_openTextDocument sample_host) (host_loads sample_host) (IdDocument fileA)
                    (new_DocumentTracker 5000 :: unit DocumentTracker)))))) = 2"
  by (simp add: add_def add_addCore_def addCore_simp new_DocumentTracker_simp sample_host_def
      ensureInitialized_def new_TrackedDocument_def lookup_def handle_def)

text \<open>Every segment takes its call one stage further, until the promise has settled.\<close>

lemma add_step_progress: "min 3 (Suc (stage c)) \<le> stage (fst (add_step opn loads c tr))"
proof (cases c)
  case (Called ident)
  then show ?thesis
    by (cases ident) (auto simp add: add_addCore_entry split: sum.splits)
qed (auto simp add: add_addCore_entry split: sum.splits)

lemma run_adds_length:
  "run_adds opn loads sched (cs, tr) = (cs', tr') \<Longrightarrow> length cs' = length cs"
proof (induction sched arbitrary: cs tr)
  case Nil
  then show ?case by simp
next
  case (Cons j sched)
  show ?case
  proof (cases "j < length cs")
    case False
    then show ?thesis using Cons by simp
  next
    case True
    obtain c1 tr1 where st: "add_step opn loads (cs ! j) tr = (c1, tr1)" by fastforce
    then have "run_adds opn loads sched (cs[j := c1], tr1) = (cs', tr')"
      using Cons.prems True by simp
    from Cons.IH [OF this] show ?thesis by simp
  qed
qed

lemma run_adds_progress:
  "run_adds opn loads sched (cs, tr) = (cs', tr') \<Longrightarrow> i < length cs \<Longrightarrow>
     min 3 (stage (cs ! i) + count_list sched i) \<le> stage (cs' ! i)"
proof (induction sched arbitrary: cs tr)
  case Nil
  then show ?case by simp
next
  case (Cons j sched)
  show ?case
  proof (cases "j < length cs")
    case False
    then have "run_adds opn loads sched (cs, tr) = (cs', tr')" "j \<noteq> i"
      using Cons.prems by auto
    with Cons.IH [OF this(1) Cons.prems(2)] show ?thesis by simp
  next
    case True
    obtain c1 tr1 where st: "add_step opn loads (cs ! j) tr = (c1, tr1)" by fastforce
    then have run: "run_adds opn loads sched (cs[j := c1], tr1) = (cs', tr')"
      using Cons.prems True by simp
    have i: "i < length (cs[j := c1])" using Cons.prems(2) by simp
    note IH = Cons.IH [OF run i]
    show ?thesis
    proof (cases "j = i")
      case False
      then show ?thesis using IH by simp
    next
      case same: True
      have "min 3 (Suc (stage (cs ! i))) \<le> stage c1"
        using add_step_progress [of "cs ! j" opn loads tr] st same by simp
      moreover have "min 3 (stage c1 + count_list sched i) \<le> stage (cs' ! i)"
        using IH same True by simp
      ultimately show ?thesis using same by simp
    qed
  qed
qed

text \<open>When the initialization of \<open>d\<close> succeeds, no call rejects.\<close>

lemma add_step_resolves:
  assumes inv: "adds_inv tr0 ident d cs tr"
    and res: "resolves_to opn ident d" and loads: "loads d"
    and i: "i < length cs" and ok: "cs ! i \<noteq> Rejected InitializationFailed"
  shows "fst (add_step opn loads (cs ! i) tr) \<noteq> Rejected InitializationFailed"
proof -
  note K = adds_invD [OF inv]
  have ci: "cs ! i \<in> set cs" using i by simp
  from K(4) [OF ci] ok consider "cs ! i = Called ident" | "cs ! i = Opened d"
    | a where "entry_of (cs ! i) = Some a" "length (heap tr0) \<le> a"
    by blast
  then show ?thesis
  proof cases
    case 1
    then show ?thesis
      using res by (cases "identity_of ident") (simp_all add: resolves_to_def add_addCore_entry)
  next
    case 2
    then show ?thesis by (simp add: add_addCore_entry)
  next
    case 3
    have a: "a < length (heap tr)" using calls_invD [OF K(2) i 3(1)] .
    from K(6) [OF 3(2) a] loads have "loads (document (heap tr ! a))" by simp
    then obtain td where "ensureInitialized loads (heap tr ! a) = Inr td"
      using ensureInitialized_succeeds by blast
    then show ?thesis using 3(1) by (cases "cs ! i") simp_all
  qed
qed

lemma run_adds_resolves:
  assumes "adds_inv tr0 ident d cs tr" "resolves_to opn ident d" "loads d"
    and "\<forall>c\<in>set cs. c \<noteq> Rejected InitializationFailed"
    and "run_adds opn loads sched (cs, tr) = (cs', tr')"
  shows "\<forall>c\<in>set cs'. c \<noteq> Rejected InitializationFailed"
  using assms(1,4,5)
proof (induction sched arbitrary: cs tr)
  case Nil
  then show ?case by simp
next
  case (Cons i sched)
  show ?case
  proof (cases "i < length cs")
    case False
    then show ?thesis using Cons by simp
  next
    case True
    obtain c1 tr1 where st: "add_step opn loads (cs ! i) tr = (c1, tr1)" by fastforce
    have 1: "adds_inv tr0 ident d (cs[i := c1]) tr1"
      by (rule adds_inv_step [OF Cons.prems(1) assms(2) True st])
    have "cs ! i \<noteq> Rejected InitializationFailed" using Cons.prems(2) True by simp
    from add_step_resolves [of tr0 ident d cs tr opn loads i] Cons.prems(1) assms(2,3) True this st
    have "c1 \<noteq> Rejected InitializationFailed" by simp
    then have 2: "\<forall>c\<in>set (cs[i := c1]). c \<noteq> Rejected InitializationFailed"
      using Cons.prems(2) set_update_subset_insert [of cs i c1] by auto
    have 3: "run_adds opn loads sched (cs[i := c1], tr1) = (cs', tr')"
      using Cons.prems(3) True st by simp
    from Cons.IH [OF 1 2 3] show ?thesis .
  qed
qed

text \<open>One call of \<open>add\<close> run to its end.\<close>

lemma add_once:
  assumes "resolves_to opn ident d"
  shows "add opn loads ident tr =
           (if loads d
            then (Resolved (length (heap tr)),
                  (snd (addCore d tr))
                    \<lparr> heap := heap tr @ [(new_TrackedDocument d (toStateKey (AsUri (uri d))) False)
                                          \<lparr> initialized := True \<rparr>] \<rparr>)
            else (Rejected InitializationFailed, snd (addCore d tr)))"
proof (cases "identity_of ident")
  case (Inr d')
  then have "d' = d" using assms by (simp add: resolves_to_def)
  then show ?thesis using Inr
    by (simp add: add_def add_addCore_entry ensureInitialized_def new_TrackedDocument_def)
next
  case (Inl i)
  then have "opn i = Inr d" using assms by (simp add: resolves_to_def)
  then show ?thesis using Inl
    by (simp add: add_def add_addCore_entry ensureInitialized_def new_TrackedDocument_def)
qed

text \<open>
  C1, amended. A call of \<open>add\<close> for an identity that stands for the buffer \<open>d\<close>, run
  to its end on any tracker: the store has one tracked document more, a new one for
  \<open>d\<close> at the end of the store; the buffer and its state key both lead to it; the call
  resolves with it when the initialization succeeds and rejects when it fails. Nothing is
  reused.

  Calls of \<open>add\<close> for one identity, in any number and interleaved in any way at their
  \<^verbatim>\<open>await\<close>s, on a well-formed tracker: the store has grown by exactly one tracked
  document for every call in which \<open>addCore\<close> has run; every segment takes its call one
  stage further, so when every call has been given three segments every call has
  settled, the store has grown by the number of calls, and every call has resolved if
  the initialization succeeds. Every call that has got an entry has got one created
  after the calls started, a tracked document of \<open>d\<close>, and no two calls have the same
  entry. Once an entry has been created, the buffer and its state key both lead to the
  entry created last, so exactly one tracked document is reachable in the cache for the
  identity; the entries created before it, and the tracked document the buffer had when
  the calls started, are reachable under no key. While none has been created the map is
  unchanged.
\<close>

theorem adds_create_fresh_entries:
  fixes tr0 :: "'T DocumentTracker"
  assumes wf: "tracker_inv tr0"
    and res: "resolves_to opn documentOrId d"
    and run: "run_adds opn loads sched (replicate n (Called documentOrId), tr0) = (cs, tr)"
  shows
  "length (heap (snd (add opn loads documentOrId tr0))) = Suc (length (heap tr0))
   \<and> document (heap (snd (add opn loads documentOrId tr0)) ! length (heap tr0)) = d
   \<and> key (heap (snd (add opn loads documentOrId tr0)) ! length (heap tr0))
       = toStateKey (AsUri (uri d))
   \<and> lookup (snd (add opn loads documentOrId tr0)) (handle d) = Some (length (heap tr0))
   \<and> lookup (snd (add opn loads documentOrId tr0)) (ByKey (toStateKey (AsUri (uri d))))
       = Some (length (heap tr0))
   \<and> (\<forall>k. lookup tr0 k \<noteq> Some (length (heap tr0)))
   \<and> fst (add opn loads documentOrId tr0)
       = (if loads d then Resolved (length (heap tr0)) else Rejected InitializationFailed)
   \<and> length cs = n
   \<and> length (heap tr) = length (heap tr0) + length (filter (\<lambda>c. 2 \<le> stage c) cs)
   \<and> (\<forall>i<n. min 3 (count_list sched i) \<le> stage (cs ! i))
   \<and> ((\<forall>i<n. 3 \<le> count_list sched i) \<longrightarrow>
         length (heap tr) = length (heap tr0) + n
         \<and> (\<forall>i<n. (\<exists>a. cs ! i = Resolved a) \<or> cs ! i = Rejected InitializationFailed)
         \<and> (loads d \<longrightarrow> (\<forall>i<n. \<exists>a. cs ! i = Resolved a)))
   \<and> (\<forall>i<n. \<forall>a. entry_of (cs ! i) = Some a \<longrightarrow>
         length (heap tr0) \<le> a \<and> a < length (heap tr)
         \<and> document (heap tr ! a) = d \<and> key (heap tr ! a) = toStateKey (AsUri (uri d))
         \<and> (\<forall>j<n. entry_of (cs ! j) = Some a \<longrightarrow> j = i))
   \<and> (length (heap tr0) < length (heap tr) \<longrightarrow>
         lookup tr (handle d) = Some (length (heap tr) - 1)
         \<and> lookup tr (ByKey (toStateKey (AsUri (uri d)))) = Some (length (heap tr) - 1)
         \<and> (\<forall>a. length (heap tr0) \<le> a \<and> a < length (heap tr) - 1 \<longrightarrow> keys_of tr a = [])
         \<and> (\<forall>a. lookup tr0 (handle d) = Some a \<longrightarrow> keys_of tr a = []))
   \<and> (length (heap tr) = length (heap tr0) \<longrightarrow> documentMap tr = documentMap tr0)"
proof -
  from run_adds_inv [OF adds_inv_start [OF wf] res run]
  have inv: "adds_inv tr0 documentOrId d cs tr" and len: "length cs = n" by simp_all
  note K = adds_invD [OF inv]
  have ok: "cache_ok tr" using K(1) by (simp add: tracker_inv_def)
  have ok0: "cache_ok tr0" using wf by (simp add: tracker_inv_def)
  have once: "length (heap (snd (add opn loads documentOrId tr0))) = Suc (length (heap tr0))"
    "document (heap (snd (add opn loads documentOrId tr0)) ! length (heap tr0)) = d"
    "key (heap (snd (add opn loads documentOrId tr0)) ! length (heap tr0))
       = toStateKey (AsUri (uri d))"
    "lookup (snd (add opn loads documentOrId tr0)) (handle d) = Some (length (heap tr0))"
    "lookup (snd (add opn loads documentOrId tr0)) (ByKey (toStateKey (AsUri (uri d))))
       = Some (length (heap tr0))"
    "fst (add opn loads documentOrId tr0)
       = (if loads d then Resolved (length (heap tr0)) else Rejected InitializationFailed)"
    unfolding add_once [OF res]
    by (simp_all add: lookup_def new_TrackedDocument_def update_conv')
  have fresh: "lookup tr0 k \<noteq> Some (length (heap tr0))" for k
    using cache_okD [OF ok0, of k "length (heap tr0)"] by (auto simp add: entry_ok_def)
  have progress: "min 3 (count_list sched i) \<le> stage (cs ! i)" if "i < n" for i
    using run_adds_progress [OF run, of i] that by simp
  have complete: "length (heap tr) = length (heap tr0) + n
         \<and> (\<forall>i<n. (\<exists>a. cs ! i = Resolved a) \<or> cs ! i = Rejected InitializationFailed)
         \<and> (loads d \<longrightarrow> (\<forall>i<n. \<exists>a. cs ! i = Resolved a))"
    if fair: "\<forall>i<n. 3 \<le> count_list sched i"
  proof -
    have settled: "stage (cs ! i) = 3" if "i < n" for i
    proof -
      have "stage c \<le> 3" for c by (cases c) simp_all
      with progress [OF that] fair that show ?thesis by (simp add: le_antisym)
    qed
    have "filter (\<lambda>c. 2 \<le> stage c) cs = cs"
      using settled len by (auto simp add: filter_id_conv in_set_conv_nth)
    then have 1: "length (heap tr) = length (heap tr0) + n"
      using K(9) len by simp
    have 2: "(\<exists>a. cs ! i = Resolved a) \<or> cs ! i = Rejected InitializationFailed" if "i < n" for i
    proof -
      have "cs ! i \<in> set cs" using that len by simp
      from K(4) [OF this] settled [OF that] show ?thesis
        by (cases "cs ! i") auto
    qed
    have 3: "\<exists>a. cs ! i = Resolved a" if l: "loads d" and i: "i < n" for i
    proof -
      have "\<forall>c\<in>set cs. c \<noteq> Rejected InitializationFailed"
        by (rule run_adds_resolves [OF adds_inv_start [OF wf] res l _ run]) simp
      moreover have "cs ! i \<in> set cs" using i len by simp
      ultimately show ?thesis using 2 [OF i] by auto
    qed
    show ?thesis using 1 2 3 by blast
  qed
  have entries: "length (heap tr0) \<le> a \<and> a < length (heap tr)
         \<and> document (heap tr ! a) = d \<and> key (heap tr ! a) = toStateKey (AsUri (uri d))
         \<and> (\<forall>j<n. entry_of (cs ! j) = Some a \<longrightarrow> j = i)"
    if "i < n" "entry_of (cs ! i) = Some a" for i a
  proof -
    have "cs ! i \<in> set cs" using that(1) len by simp
    from K(4) [OF this] that(2) have 1: "length (heap tr0) \<le> a" by auto
    have 2: "a < length (heap tr)"
      using calls_invD [OF K(2) _ that(2)] that(1) len by simp
    have "j = i" if "j < n" "entry_of (cs ! j) = Some a" for j
      using calls_inv_uniq [OF K(2) _ \<open>entry_of (cs ! i) = Some a\<close> _ that(2)] \<open>i < n\<close> that(1) len
      by simp
    then show ?thesis using 1 2 K(6) [OF 1 2] by blast
  qed
  have grown: "lookup tr (handle d) = Some (length (heap tr) - 1)
         \<and> lookup tr (ByKey (toStateKey (AsUri (uri d)))) = Some (length (heap tr) - 1)
         \<and> (\<forall>a. length (heap tr0) \<le> a \<and> a < length (heap tr) - 1 \<longrightarrow> keys_of tr a = [])
         \<and> (\<forall>a. lookup tr0 (handle d) = Some a \<longrightarrow> keys_of tr a = [])"
    if g: "length (heap tr0) < length (heap tr)"
  proof -
    note cur = K(7) [OF g]
    have created: "keys_of tr a = []" if "length (heap tr0) \<le> a" "a < length (heap tr) - 1" for a
    proof -
      have "a < length (heap tr)" using that(2) by simp
      from K(6) [OF that(1) this] that(2)
      show ?thesis
        by (intro replaced_unreachable [OF ok conjunct1 [OF cur] conjunct2 [OF cur]]) simp_all
    qed
    have previous: "keys_of tr a = []" if "lookup tr0 (handle d) = Some a" for a
    proof -
      from cache_okD [OF ok0 that]
      have a: "a < length (heap tr0)" "handle (document (heap tr0 ! a)) = handle d"
        "key (heap tr0 ! a) = toStateKey (AsUri (uri d))"
        by (simp_all add: entry_ok_def handle_def)
      from K(5) [OF a(1)] a g
      show ?thesis
        by (intro replaced_unreachable [OF ok conjunct1 [OF cur] conjunct2 [OF cur]]) simp_all
    qed
    show ?thesis using cur created previous by blast
  qed
  have unchanged: "documentMap tr = documentMap tr0" if "length (heap tr) = length (heap tr0)"
    using K(8) that by simp
  show ?thesis
    using once fresh len K(9) progress complete entries grown unchanged by blast
qed

lemma two_adds_calls: "fst two_adds = [Resolved 1, Resolved 2]"
  by (simp add: two_adds_def numeral_2_eq_2 first_edit add_addCore_def addCore_simp
      sample_host_def ensureInitialized_def new_TrackedDocument_def toStateKey_fileA handle_def)

theorem adds_create_fresh_entries_witness:
  "tracker_inv edited_tracker
   \<and> resolves_to (host_openTextDocument sample_host) (IdDocument fileA) fileA
   \<and> host_loads sample_host fileA
   \<and> 3 \<le> count_list [0, 1, 0, 1, 0, 1] (0 :: nat)
   \<and> 3 \<le> count_list [0, 1, 0, 1, 0, 1] (1 :: nat)
   \<and> lookup edited_tracker (handle fileA) = Some 0
   \<and> length (heap edited_tracker) = 1
   \<and> fst (add (host_openTextDocument sample_host) (host_loads sample_host) (IdDocument fileA)
            edited_tracker) = Resolved 1
   \<and> lookup (snd (add (host_openTextDocument sample_host) (host_loads sample_host)
                     (IdDocument fileA) edited_tracker)) (handle fileA) = Some 1
   \<and> fst two_adds = [Resolved 1, Resolved 2]
   \<and> length (heap (snd two_adds)) = 3
   \<and> lookup (snd two_adds) (handle fileA) = Some 2
   \<and> lookup (snd two_adds) (ByKey (toStateKey (AsUri (uri fileA)))) = Some 2
   \<and> keys_of (snd two_adds) 0 = []
   \<and> keys_of (snd two_adds) 1 = []"
proof -
  have "tracker_inv (tracker_after sample_host 5000
          [TextDocumentChanged 0 (Some editorA) fileA_changed] :: unit DocumentTracker)"
    by (rule history_inv)
  then have wf: "tracker_inv edited_tracker"
    by (simp add: edited_tracker_def tracker_after_def history_def)
  have res: "resolves_to (host_openTextDocument sample_host) (IdDocument fileA) fileA"
    by (simp add: resolves_to_def)
  have run: "run_adds (host_openTextDocument sample_host) (host_loads sample_host)
       [0, 1, 0, 1, 0, 1] (replicate 2 (Called (IdDocument fileA)), edited_tracker)
       = (fst two_adds, snd two_adds)"
    by (simp add: two_adds_def)
  have f: "lookup edited_tracker (handle fileA) = Some 0" "length (heap edited_tracker) = 1"
    by (simp_all add: first_edit lookup_def)
  have l: "host_loads sample_host fileA" by (simp add: sample_host_def)
  have fair: "\<forall>i<2. 3 \<le> count_list [0, 1, 0, 1, 0, 1] (i :: nat)"
    by (auto simp add: less_2_cases_iff)
  note t = adds_create_fresh_entries [OF wf res run]
  from t f l
  have 0: "fst (add (host_openTextDocument sample_host) (host_loads sample_host) (IdDocument fileA)
            edited_tracker) = Resolved 1"
    "lookup (snd (add (host_openTextDocument sample_host) (host_loads sample_host)
                     (IdDocument fileA) edited_tracker)) (handle fileA) = Some 1"
    by simp_all
  from t fair f have store: "length (heap (snd two_adds)) = 3"
    by simp
  from t f store
  have 1: "lookup (snd two_adds) (handle fileA) = Some 2"
    "lookup (snd two_adds) (ByKey (toStateKey (AsUri (uri fileA)))) = Some 2"
    by simp_all
  from t f store
  have 2: "keys_of (snd two_adds) 0 = []" "keys_of (snd two_adds) 1 = []"
    by simp_all
  have counts: "3 \<le> count_list [0, 1, 0, 1, 0, 1] (0 :: nat)"
    "3 \<le> count_list [0, 1, 0, 1, 0, 1] (1 :: nat)"
    by simp_all
  show ?thesis using wf res l counts f 0 two_adds_calls store 1 2 by simp
qed

end
